theory Spec2Isabelle
  imports Main "HOL-Library.Log_Nat" "HOL-Library.Sublist"
begin

section \<open>Multi-transfer tool for EVM chains: a model of \<open>multiTransfer/evm/index.js\<close>\<close>

text \<open>
  The script reads lines \<open>privateKey:destination\<close>, plans one transfer per line from the
  balance of the sending address (\<open>previewTransfers\<close>), asks the operator to confirm and
  then sends the planned transfers one after the other (\<open>executeTransfers\<close>), each through
  \<open>withRetry\<close>.  The chain client library and the RPC endpoint are not part of the
  script: they appear here as the fields of an environment record, and every call that can
  throw returns a sum whose left injection is the thrown value.
\<close>

subsection \<open>Strings\<close>

text \<open>
  A JavaScript string is modelled as a list of characters, each one a code unit below 256
  (Latin-1).  \<open>trim\<close> removes the white space of that range on both sides,
  \<open>toLowerCase\<close> maps the upper-case letters of that range.
\<close>

definition is_space :: "char \<Rightarrow> bool" where
  "is_space c = (of_char c \<in> {9, 10, 11, 12, 13, 32, 160 :: nat})"

definition trim :: "string \<Rightarrow> string" where
  "trim s = rev (dropWhile is_space (rev (dropWhile is_space s)))"

definition toLower_char :: "char \<Rightarrow> char" where
  "toLower_char c =
     (let n = of_char c :: nat
      in if (65 \<le> n \<and> n \<le> 90) \<or> (192 \<le> n \<and> n \<le> 222 \<and> n \<noteq> 215)
         then char_of (n + 32) else c)"

definition toLowerCase :: "string \<Rightarrow> string" where
  "toLowerCase s = map toLower_char s"

text \<open>\<open>s.split(c)\<close> for a one-character separator: never empty, \<open>''''.split(c) = ['''']\<close>.\<close>

fun split_on :: "char \<Rightarrow> string \<Rightarrow> string list" where
  "split_on c [] = [[]]"
| "split_on c (x # xs) =
     (if x = c then [] # split_on c xs
      else (case split_on c xs of [] \<Rightarrow> [[x]] | p # ps \<Rightarrow> (x # p) # ps))"

text \<open>\<open>s.includes(t)\<close>: \<open>t\<close> occurs in \<open>s\<close> as a contiguous piece.\<close>

fun str_includes :: "string \<Rightarrow> string \<Rightarrow> bool" where
  "str_includes [] t = (t = [])"
| "str_includes (x # xs) t = (prefix t (x # xs) \<or> str_includes xs t)"

subsection \<open>Thrown values\<close>

datatype err_code = CodeStr string | CodeNum int

datatype js_error = JsError (code: "err_code option") (message: "string option")

definition TypeError :: "string \<Rightarrow> js_error" where
  "TypeError m = JsError None (Some m)"

definition RangeError :: "string \<Rightarrow> js_error" where
  "RangeError m = JsError None (Some m)"

subsection \<open>Numbers\<close>

text \<open>
  A JavaScript number is an IEEE 754 binary64 value: \<open>NaN\<close>, an infinity, or a finite
  value, here the rational it denotes.  The two zeros are identified (they compare equal;
  where a division by zero needs a sign, the zero counts as \<open>+0\<close>).
\<close>

datatype jsnum = NaN | NInf | Fin rat | PInf

fun is_nan :: "jsnum \<Rightarrow> bool" where
  "is_nan NaN = True"
| "is_nan _ = False"

text \<open>The comparisons of the language: every comparison with \<open>NaN\<close> is false.\<close>

fun js_lt :: "jsnum \<Rightarrow> jsnum \<Rightarrow> bool" where
  "js_lt NaN _ = False"
| "js_lt _ NaN = False"
| "js_lt _ NInf = False"
| "js_lt NInf _ = True"
| "js_lt PInf _ = False"
| "js_lt (Fin a) PInf = True"
| "js_lt (Fin a) (Fin b) = (a < b)"

definition js_gt :: "jsnum \<Rightarrow> jsnum \<Rightarrow> bool" where
  "js_gt a b = js_lt b a"

definition js_le :: "jsnum \<Rightarrow> jsnum \<Rightarrow> bool" where
  "js_le a b = (\<not> is_nan a \<and> \<not> is_nan b \<and> \<not> js_lt b a)"

text \<open>
  Rounding to binary64, to nearest with ties to even.  \<open>ilog2 x\<close> is the binary exponent
  of a positive \<open>x\<close>, \<open>ulp_exp x\<close> the exponent of the spacing of the binary64 values
  around \<open>x\<close> (52 fraction bits; below \<open>2^-1022\<close> the spacing stays \<open>2^-1074\<close>).
  \<open>fl\<close> is the result of an operation whose exact value is \<open>x\<close>: it overflows to an
  infinity when the rounded value reaches \<open>2^1024\<close>, that is when its binary exponent
  reaches 1024.
\<close>

definition ilog2 :: "rat \<Rightarrow> int" where
  "ilog2 x = (if 1 \<le> x then bitlen \<lfloor>x\<rfloor> - 1 else - bitlen (\<lceil>1 / x\<rceil> - 1))"

definition ulp_exp :: "rat \<Rightarrow> int" where
  "ulp_exp x = max (ilog2 \<bar>x\<bar>) (- 1022) - 52"

definition rne :: "rat \<Rightarrow> int" where
  "rne q =
     (let n = \<lfloor>q\<rfloor>; d = q - of_int n
      in if d < 1 / 2 then n else if 1 / 2 < d then n + 1 else if even n then n else n + 1)"

definition rnd64 :: "rat \<Rightarrow> rat" where
  "rnd64 x = (if x = 0 then 0 else of_int (rne (x / 2 powi ulp_exp x)) * 2 powi ulp_exp x)"

definition fl :: "rat \<Rightarrow> jsnum" where
  "fl x =
     (let y = rnd64 x
      in if y \<noteq> 0 \<and> 1024 \<le> ilog2 \<bar>y\<bar> then (if 0 < y then PInf else NInf) else Fin y)"

text \<open>The arithmetic operators: the special values first, then the rounded exact result.\<close>

fun js_neg :: "jsnum \<Rightarrow> jsnum" where
  "js_neg NaN = NaN"
| "js_neg NInf = PInf"
| "js_neg PInf = NInf"
| "js_neg (Fin a) = Fin (- a)"

fun js_add :: "jsnum \<Rightarrow> jsnum \<Rightarrow> jsnum" where
  "js_add NaN _ = NaN"
| "js_add _ NaN = NaN"
| "js_add PInf NInf = NaN"
| "js_add NInf PInf = NaN"
| "js_add PInf _ = PInf"
| "js_add NInf _ = NInf"
| "js_add (Fin a) PInf = PInf"
| "js_add (Fin a) NInf = NInf"
| "js_add (Fin a) (Fin b) = fl (a + b)"

definition js_sub :: "jsnum \<Rightarrow> jsnum \<Rightarrow> jsnum" where
  "js_sub a b = js_add a (js_neg b)"

fun js_sign :: "jsnum \<Rightarrow> int" where
  "js_sign NaN = 0"
| "js_sign NInf = - 1"
| "js_sign PInf = 1"
| "js_sign (Fin a) = (if a < 0 then - 1 else if a = 0 then 0 else 1)"

fun js_mul :: "jsnum \<Rightarrow> jsnum \<Rightarrow> jsnum" where
  "js_mul NaN _ = NaN"
| "js_mul _ NaN = NaN"
| "js_mul (Fin a) (Fin b) = fl (a * b)"
| "js_mul a b =
     (let s = js_sign a * js_sign b
      in if s = 0 then NaN else if 0 < s then PInf else NInf)"

fun js_div :: "jsnum \<Rightarrow> jsnum \<Rightarrow> jsnum" where
  "js_div NaN _ = NaN"
| "js_div _ NaN = NaN"
| "js_div (Fin a) (Fin b) =
     (if b = 0 then (if a = 0 then NaN else if 0 < a then PInf else NInf) else fl (a / b))"
| "js_div (Fin a) _ = Fin 0"
| "js_div a (Fin b) = (if (js_sign a < 0) = (b < 0) then PInf else NInf)"
| "js_div _ _ = NaN"

text \<open>\<open>Math.max\<close> of two numbers and \<open>Math.floor\<close>.\<close>

definition js_max :: "jsnum \<Rightarrow> jsnum \<Rightarrow> jsnum" where
  "js_max a b = (if is_nan a \<or> is_nan b then NaN else if js_lt a b then b else a)"

fun js_floor :: "jsnum \<Rightarrow> jsnum" where
  "js_floor (Fin a) = Fin (of_int \<lfloor>a\<rfloor>)"
| "js_floor a = a"

text \<open>
  \<open>Math.pow(10, d)\<close> for the result \<open>d\<close> of \<open>parseInt\<close> (an integer, or \<open>NaN\<close> written
  \<open>None\<close>), taken as correctly rounded.
\<close>

fun js_pow10 :: "int option \<Rightarrow> jsnum" where
  "js_pow10 None = NaN"
| "js_pow10 (Some d) = fl (10 powi d)"

text \<open>
  The strings that denote numbers are kept as the value they denote: the output of
  \<open>toFixed\<close> in fixed notation (\<open>SFixed q d\<close>, the decimal \<open>q\<close> written with \<open>d\<close>
  fraction digits) or, from \<open>10^21\<close> on, the shortest notation that reads back as the
  same number (\<open>SShortest\<close>), and the names of the special values.  \<open>parseFloat\<close> reads
  a decimal as the nearest binary64 value.
\<close>

datatype numstr = SNaN | SInfinity | SNegInfinity | SShortest rat | SFixed rat nat

fun parseFloat :: "numstr \<Rightarrow> jsnum" where
  "parseFloat SNaN = NaN"
| "parseFloat SInfinity = PInf"
| "parseFloat SNegInfinity = NInf"
| "parseFloat (SShortest x) = Fin x"
| "parseFloat (SFixed q d) = fl q"

text \<open>
  \<open>x.toFixed(f)\<close>: a \<open>RangeError\<close> unless \<open>0 \<le> f \<le> 100\<close> (\<open>NaN\<close> digits count as 0);
  otherwise the integer \<open>n\<close> with \<open>n / 10^f\<close> nearest to \<open>x\<close>, the larger one of two.
\<close>

definition fixed_digits :: "rat \<Rightarrow> nat \<Rightarrow> rat" where
  "fixed_digits x f =
     (if x < 0 then - (of_int \<lfloor>- x * 10 ^ f + 1 / 2\<rfloor> / 10 ^ f)
      else of_int \<lfloor>x * 10 ^ f + 1 / 2\<rfloor> / 10 ^ f)"

fun toFixed :: "jsnum \<Rightarrow> int option \<Rightarrow> js_error + numstr" where
  "toFixed x digits =
     (let f = (case digits of None \<Rightarrow> 0 | Some d \<Rightarrow> d)
      in if f < 0 \<or> 100 < f then Inl (RangeError ''toFixed() digits argument must be between 0 and 100'')
         else (case x of
                 NaN \<Rightarrow> Inr SNaN
               | PInf \<Rightarrow> Inr SInfinity
               | NInf \<Rightarrow> Inr SNegInfinity
               | Fin a \<Rightarrow>
                   if 10 ^ 21 \<le> \<bar>a\<bar> then Inr (SShortest a)
                   else Inr (SFixed (fixed_digits a (nat f)) (nat f))))"

text \<open>\<open>x.toFixed(6)\<close>, which cannot throw.\<close>

definition toFixed6 :: "jsnum \<Rightarrow> numstr" where
  "toFixed6 x =
     (case x of
        NaN \<Rightarrow> SNaN
      | PInf \<Rightarrow> SInfinity
      | NInf \<Rightarrow> SNegInfinity
      | Fin a \<Rightarrow> if 10 ^ 21 \<le> \<bar>a\<bar> then SShortest a else SFixed (fixed_digits a 6) 6)"

subsection \<open>Configuration and environment\<close>

text \<open>
  The configuration object after \<open>getTokenMetadata\<close> has filled in \<open>decimals\<close> and
  \<open>symbol\<close>.  The numeric settings are results of \<open>parseFloat\<close>, so any of them can be
  \<open>NaN\<close> or an infinity; \<open>randomDecimals\<close> is the result of \<open>parseInt\<close> on
  \<open>TRANSFER_RANDOM_DECIMALS\<close> (default 6), \<open>None\<close> for \<open>NaN\<close>.
\<close>

record config =
  tokenAddress :: string
  transferMode :: string
  fixedAmount :: jsnum
  minAmount :: jsnum
  maxAmount :: jsnum
  percent :: jsnum
  remainAmount :: jsnum
  randomDecimals :: "int option"
  gasPriceMode :: string
  gasPriceGwei :: jsnum
  gasLimitMode :: string
  gasLimit :: "int option"
  decimals :: nat
  symbol :: string

definition tokenIsNative :: "config \<Rightarrow> bool" where
  "tokenIsNative cfg =
     (toLowerCase (tokenAddress cfg) = ''0xeeeeeeeeeeeeeeeeeeeeeeeeeeeeeeeeeeeeeeee'')"

text \<open>A transaction handed to the chain client: a native transfer or a token \<open>transfer\<close> call.\<close>

record tx_request =
  tx_native :: bool
  tx_from :: string
  tx_to :: string
  tx_value :: nat
  tx_gasPrice :: "nat option"
  tx_gasLimit :: "int option"

text \<open>
  What the script calls and does not define:
  \<^item> \<open>wallet_ctor k\<close>: \<open>new ethers.Wallet(k, provider)\<close>, the address of the wallet or
    the value thrown for a key the library refuses;
  \<^item> \<open>query_balance native i a\<close>: the balance read for line \<open>i\<close> (\<open>getBalance\<close> or
    \<open>balanceOf\<close>), in base units;
  \<^item> \<open>random i\<close>: the value \<open>Math.random()\<close> returns while line \<open>i\<close> is planned;
  \<^item> \<open>parse_units x d\<close>: \<open>ethers.utils.parseUnits(x.toString(), d)\<close>;
  \<^item> \<open>contract_ctor a\<close>: the value thrown by \<open>new ethers.Contract(a, abi, wallet)\<close>, if
    any;
  \<^item> \<open>submit j k tx\<close>: the result of the \<open>k\<close>-th submission (from 0) of the transaction
    of plan entry \<open>j\<close>, the transaction hash or the value thrown.
\<close>

record environment =
  wallet_ctor :: "string \<Rightarrow> js_error + string"
  query_balance :: "bool \<Rightarrow> nat \<Rightarrow> string \<Rightarrow> js_error + nat"
  random :: "nat \<Rightarrow> rat"
  parse_units :: "jsnum \<Rightarrow> nat \<Rightarrow> js_error + nat"
  contract_ctor :: "string \<Rightarrow> js_error option"
  submit :: "nat \<Rightarrow> nat \<Rightarrow> tx_request \<Rightarrow> js_error + string"

subsection \<open>Amounts\<close>

text \<open>
  \<open>randomAmount(min, max, decimals)\<close> with the draw \<open>r\<close> of \<open>Math.random()\<close>:
  \<^verbatim>\<open>
  const factor = Math.pow(10, decimals);
  const randInt = Math.floor(Math.random() * (max * factor - min * factor) + min * factor);
  return (randInt / factor).toFixed(decimals);
  \<close>
\<close>

definition randomAmount :: "rat \<Rightarrow> jsnum \<Rightarrow> jsnum \<Rightarrow> int option \<Rightarrow> js_error + numstr" where
  "randomAmount r mn mx decs =
     (let factor = js_pow10 decs;
          randInt = js_floor (js_add (js_mul (Fin r) (js_sub (js_mul mx factor) (js_mul mn factor)))
                                     (js_mul mn factor))
      in toFixed (js_div randInt factor) decs)"

text \<open>
  \<open>toReadable(balance, decimals)\<close> is
  \<open>parseFloat(ethers.utils.formatUnits(balance, decimals)).toFixed(6)\<close>; \<open>formatUnits\<close>
  writes the exact decimal \<open>balance / 10^decimals\<close>.
\<close>

definition toReadable :: "nat \<Rightarrow> nat \<Rightarrow> numstr" where
  "toReadable balance decs = toFixed6 (parseFloat (SFixed (of_nat balance / 10 ^ decs) decs))"

text \<open>
  The \<open>switch\<close> on the transfer mode; \<open>amount\<close> starts at 0 and an unknown mode leaves
  it there.  Only the \<open>range\<close> mode can throw (from \<open>toFixed\<close>).
\<close>

definition compute_amount :: "environment \<Rightarrow> config \<Rightarrow> nat \<Rightarrow> jsnum \<Rightarrow> js_error + jsnum" where
  "compute_amount env cfg i b =
     (if transferMode cfg = ''fixed'' then Inr (fixedAmount cfg)
      else if transferMode cfg = ''range'' then
        (case randomAmount (random env i) (minAmount cfg) (maxAmount cfg) (randomDecimals cfg) of
           Inl e \<Rightarrow> Inl e
         | Inr s \<Rightarrow> Inr (parseFloat s))
      else if transferMode cfg = ''all'' then Inr b
      else if transferMode cfg = ''percent'' then Inr (js_mul b (percent cfg))
      else if transferMode cfg = ''remain'' then Inr (js_max (js_sub b (remainAmount cfg)) (Fin 0))
      else Inr (Fin 0))"

subsection \<open>The planner: \<open>previewTransfers\<close>\<close>

datatype skip_reason = zero_balance | insufficient_balance

record planned =
  privateKey :: string
  from_addr :: string
  to_addr :: string
  amount :: jsnum

record report_row =
  row_index :: nat
  row_from :: string
  row_balance :: numstr
  row_to :: string
  row_symbol :: string
  row_amount :: numstr

text \<open>
  The three lists the loop fills: \<open>result\<close> (the plan), \<open>skipped\<close> (one line and its
  reason per skipped entry) and \<open>previewLines\<close>, the lines written to the preview file,
  which starts with the header line.
\<close>

datatype preview_line = Header | Row report_row

record preview_state =
  result :: "planned list"
  skipped :: "(report_row \<times> skip_reason) list"
  previewLines :: "preview_line list"

definition initial_preview :: preview_state where
  "initial_preview = \<lparr>result = [], skipped = [], previewLines = [Header]\<rparr>"

text \<open>
  \<open>const [privateKey, to] = lines[i].split(':')\<close>: the first two pieces; \<open>to\<close> is
  \<open>undefined\<close> (\<open>None\<close>) when the line has no colon.
\<close>

definition destructure :: "string \<Rightarrow> string \<times> string option" where
  "destructure line =
     (case split_on CHR '':'' line of
        [] \<Rightarrow> ([], None)
      | [k] \<Rightarrow> (k, None)
      | k # t # _ \<Rightarrow> (k, Some t))"

text \<open>\<open>to.trim()\<close>, a \<open>TypeError\<close> on \<open>undefined\<close>.\<close>

definition trim_to :: "string option \<Rightarrow> js_error + string" where
  "trim_to t =
     (case t of
        None \<Rightarrow> Inl (TypeError ''Cannot read properties of undefined (reading trim)'')
      | Some s \<Rightarrow> Inr (trim s))"

text \<open>
  One pass of the loop body (lines 89 to 129) for line \<open>i\<close> (from 0); the lines are the
  pieces of the address file that are not blank.  A failed balance query leaves the state
  as it is (\<open>continue\<close>); a value thrown outside that \<open>try\<close> ends
  \<open>previewTransfers\<close>.  Each of the three branches builds its report line, and with
  it calls \<open>to.trim()\<close>, before it pushes anything, so the call is made once here,
  ahead of the branches.
\<close>

definition preview_step ::
  "environment \<Rightarrow> config \<Rightarrow> nat \<Rightarrow> string \<Rightarrow> preview_state \<Rightarrow> js_error + preview_state" where
  "preview_step env cfg i line st =
     (case destructure line of (pk, to) \<Rightarrow>
      (case wallet_ctor env (trim pk) of
         Inl e \<Rightarrow> Inl e
       | Inr from \<Rightarrow>
          (case query_balance env (tokenIsNative cfg) i from of
             Inl e \<Rightarrow> Inr st
           | Inr balanceRaw \<Rightarrow>
              (let balance = toReadable balanceRaw (decimals cfg);
                   b = parseFloat balance
               in case compute_amount env cfg i b of
                    Inl e \<Rightarrow> Inl e
                  | Inr amt \<Rightarrow>
                     (case trim_to to of
                        Inl e \<Rightarrow> Inl e
                      | Inr dest \<Rightarrow>
                         (let row = \<lparr>row_index = i + 1, row_from = from, row_balance = balance,
                                     row_to = dest, row_symbol = symbol cfg,
                                     row_amount = toFixed6 amt\<rparr>
                          in if js_le b (Fin 0) then
                               Inr (st\<lparr>skipped := skipped st @ [(row, zero_balance)]\<rparr>)
                             else if js_le amt (Fin 0) \<or> js_gt amt b then
                               Inr (st\<lparr>skipped := skipped st @ [(row, insufficient_balance)]\<rparr>)
                             else
                               Inr (st\<lparr>previewLines := previewLines st @ [Row row],
                                       result := result st @
                                         [\<lparr>privateKey = pk, from_addr = from, to_addr = dest,
                                           amount = amt\<rparr>]\<rparr>)))))))"

fun preview_loop ::
  "environment \<Rightarrow> config \<Rightarrow> nat \<Rightarrow> string list \<Rightarrow> preview_state \<Rightarrow> js_error + preview_state" where
  "preview_loop env cfg i [] st = Inr st"
| "preview_loop env cfg i (l # ls) st =
     (case preview_step env cfg i l st of
        Inl e \<Rightarrow> Inl e
      | Inr st' \<Rightarrow> preview_loop env cfg (i + 1) ls st')"

definition previewTransfers :: "environment \<Rightarrow> config \<Rightarrow> string list \<Rightarrow> js_error + preview_state" where
  "previewTransfers env cfg lines = preview_loop env cfg 0 lines initial_preview"

subsection \<open>The retry wrapper: \<open>withRetry\<close>\<close>

text \<open>
  \<^verbatim>\<open>
  const retriable = error?.code === 'SERVER_ERROR' || error?.code === -32603
                    || error?.message?.includes('no response');
  \<close>
\<close>

definition retriable :: "js_error \<Rightarrow> bool" where
  "retriable error =
     (code error = Some (CodeStr ''SERVER_ERROR'') \<or> code error = Some (CodeNum (- 32603))
      \<or> (case message error of None \<Rightarrow> False | Some m \<Rightarrow> str_includes m ''no response''))"

text \<open>
  A run of \<open>withRetry\<close>: what it returns or throws (\<open>Inr None\<close> is the
  \<open>undefined\<close> of leaving the \<open>while\<close> loop by its condition), how many times it
  called \<open>fn\<close>, and the waits, in milliseconds, in the order they were made.  The
  operation is given by the results of its successive calls, \<open>fn k\<close> for call number
  \<open>k\<close> from 0.
\<close>

record 'a retry_run =
  outcome :: "js_error + 'a option"
  invocations :: nat
  waits :: "nat list"

function withRetry_loop ::
  "(nat \<Rightarrow> js_error + 'a) \<Rightarrow> nat \<Rightarrow> nat \<Rightarrow> nat \<Rightarrow> nat \<Rightarrow> nat list \<Rightarrow> 'a retry_run" where
  "withRetry_loop fn maxRetries delay attempt calls ws =
     (if attempt \<le> maxRetries then
        (case fn calls of
           Inr v \<Rightarrow> \<lparr>outcome = Inr (Some v), invocations = calls + 1, waits = ws\<rparr>
         | Inl error \<Rightarrow>
            (let attempt' = attempt + 1;
                 isFinalAttempt = (attempt' > maxRetries)
             in if \<not> retriable error \<or> isFinalAttempt then
                  \<lparr>outcome = Inl error, invocations = calls + 1, waits = ws\<rparr>
                else
                  (let backoff = delay * 2 ^ attempt'
                   in withRetry_loop fn maxRetries delay attempt' (calls + 1) (ws @ [backoff]))))
      else \<lparr>outcome = Inr None, invocations = calls, waits = ws\<rparr>)"
  by pat_completeness auto
termination
  by (relation "measure (\<lambda>(fn, maxRetries, delay, attempt, calls, ws). Suc maxRetries - attempt)") auto

definition withRetry :: "(nat \<Rightarrow> js_error + 'a) \<Rightarrow> nat \<Rightarrow> nat \<Rightarrow> 'a retry_run" where
  "withRetry fn maxRetries delay = withRetry_loop fn maxRetries delay 0 0 []"

text \<open>Every call in the script leaves both defaults: \<open>maxRetries = 3\<close>, \<open>delay = 1000\<close>.\<close>

definition withRetry_default :: "(nat \<Rightarrow> js_error + 'a) \<Rightarrow> 'a retry_run" where
  "withRetry_default fn = withRetry fn 3 1000"

subsection \<open>The runner: \<open>executeTransfers\<close>\<close>

text \<open>
  What a run leaves behind, in order: a line appended to the success log, a line appended
  to the failure log, a delay awaited (\<open>randomDelay\<close>).
\<close>

record log_line =
  log_from :: string
  log_to :: string
  log_amount :: jsnum
  log_text :: string

datatype event = Success log_line | Failure log_line | Delay

text \<open>The gas overrides: a fixed gas price is parsed in gwei (9 decimals), outside the \<open>try\<close>.\<close>

definition gas_overrides :: "environment \<Rightarrow> config \<Rightarrow> js_error + (nat option \<times> int option)" where
  "gas_overrides env cfg =
     (case (if gasPriceMode cfg = ''fixed''
            then (case parse_units env (gasPriceGwei cfg) 9 of
                    Inl e \<Rightarrow> Inl e
                  | Inr g \<Rightarrow> Inr (Some g))
            else Inr None) of
        Inl e \<Rightarrow> Inl e
      | Inr gp \<Rightarrow> Inr (gp, if gasLimitMode cfg = ''fixed'' then gasLimit cfg else None))"

text \<open>\<open>err.message\<close> inside a template string.\<close>

definition message_text :: "js_error \<Rightarrow> string" where
  "message_text err = (case message err of None \<Rightarrow> ''undefined'' | Some m \<Rightarrow> m)"

text \<open>
  The body of the \<open>try\<close> for plan entry \<open>j\<close> and the \<open>catch\<close> after it: the
  event that gets logged.  A token transfer first builds the contract, inside the
  \<open>try\<close>; \<open>tx.hash\<close> of an \<open>undefined\<close> result is a \<open>TypeError\<close>, caught as well.
\<close>

definition attempt_transfer :: "environment \<Rightarrow> config \<Rightarrow> nat \<Rightarrow> planned \<Rightarrow> tx_request \<Rightarrow> event" where
  "attempt_transfer env cfg j p tx =
     (let line = (\<lambda>t. \<lparr>log_from = from_addr p, log_to = to_addr p, log_amount = amount p,
                           log_text = t\<rparr>);
          thrown = (if tokenIsNative cfg then None else contract_ctor env (tokenAddress cfg))
      in case thrown of
           Some err \<Rightarrow> Failure (line (message_text err))
         | None \<Rightarrow>
            (case outcome (withRetry_default (\<lambda>k. submit env j k tx)) of
               Inr (Some hash) \<Rightarrow> Success (line hash)
             | Inr None \<Rightarrow>
                 Failure (line (message_text
                   (TypeError ''Cannot read properties of undefined (reading hash)'')))
             | Inl err \<Rightarrow> Failure (line (message_text err))))"

text \<open>
  The loop over the plan, entry \<open>j\<close> first.  The wallet, the amount in base units and the
  gas overrides are computed before the \<open>try\<close>: a value thrown there ends
  \<open>executeTransfers\<close> (second component), with the events logged so far.
\<close>

fun executeTransfers ::
  "environment \<Rightarrow> config \<Rightarrow> nat \<Rightarrow> planned list \<Rightarrow> event list \<times> js_error option" where
  "executeTransfers env cfg j [] = ([], None)"
| "executeTransfers env cfg j (p # ps) =
     (case wallet_ctor env (privateKey p) of
        Inl e \<Rightarrow> ([], Some e)
      | Inr wallet \<Rightarrow>
         (case parse_units env (amount p) (decimals cfg) of
            Inl e \<Rightarrow> ([], Some e)
          | Inr val \<Rightarrow>
             (case gas_overrides env cfg of
                Inl e \<Rightarrow> ([], Some e)
              | Inr (gp, gl) \<Rightarrow>
                 (let tx = \<lparr>tx_native = tokenIsNative cfg, tx_from = wallet, tx_to = to_addr p,
                            tx_value = val, tx_gasPrice = gp, tx_gasLimit = gl\<rparr>;
                      ev = attempt_transfer env cfg j p tx;
                      (evs, thrown) = executeTransfers env cfg (j + 1) ps
                  in (ev # Delay # evs, thrown)))))"

subsection \<open>The main flow\<close>

text \<open>
  After the token metadata: plan; with an empty plan write the skip report and exit;
  otherwise ask, and execute when \<open>answer.trim().toLowerCase() === 'yes'\<close>.
\<close>

datatype run_end =
    PlanningThrew js_error
  | EmptyPlan "(report_row \<times> skip_reason) list"
  | Cancelled
  | Executed "event list \<times> js_error option"

definition confirmed :: "string \<Rightarrow> bool" where
  "confirmed answer = (toLowerCase (trim answer) = ''yes'')"

definition main_flow :: "environment \<Rightarrow> config \<Rightarrow> string list \<Rightarrow> string \<Rightarrow> run_end" where
  "main_flow env cfg lines answer =
     (case previewTransfers env cfg lines of
        Inl e \<Rightarrow> PlanningThrew e
      | Inr st \<Rightarrow>
         if length (result st) = 0 then EmptyPlan (skipped st)
         else if confirmed answer then Executed (executeTransfers env cfg 0 (result st))
         else Cancelled)"

section \<open>Notions used in the statements\<close>

text \<open>
  The binary64 values that are not negative: an integer below \<open>2^53\<close> times a power of
  two not below \<open>2^-1074\<close>.
\<close>

definition on_grid :: "rat \<Rightarrow> bool" where
  "on_grid c = (\<exists>m k. c = of_int m * 2 powi k \<and> 0 \<le> m \<and> m < 2 ^ 53 \<and> - 1074 \<le> k)"

text \<open>
  What one pass of the planner's loop did to the three lists: it recorded a skip with the
  given reason and nothing else, or it accepted the given entry, with one more line in the
  preview file and nothing added to the skipped list.
\<close>

definition skipped_as :: "skip_reason \<Rightarrow> preview_state \<Rightarrow> preview_state \<Rightarrow> bool" where
  "skipped_as r st st' =
     (result st' = result st \<and> previewLines st' = previewLines st \<and>
      butlast (skipped st') = skipped st \<and> skipped st' \<noteq> [] \<and> snd (last (skipped st')) = r)"

definition accepted_as :: "planned \<Rightarrow> preview_state \<Rightarrow> preview_state \<Rightarrow> bool" where
  "accepted_as p st st' =
     (skipped st' = skipped st \<and> result st' = result st @ [p] \<and>
      butlast (previewLines st') = previewLines st \<and> previewLines st' \<noteq> [])"

text \<open>
  The rows of the preview file (its lines without the header), and what a row and a plan
  entry have in common: the two addresses and the amount as \<open>toFixed(6)\<close> prints it.
\<close>

fun rows_of :: "preview_line list \<Rightarrow> report_row list" where
  "rows_of [] = []"
| "rows_of (Header # ls) = rows_of ls"
| "rows_of (Row r # ls) = r # rows_of ls"

definition row_key :: "report_row \<Rightarrow> string \<times> string \<times> numstr" where
  "row_key r = (row_from r, row_to r, row_amount r)"

definition plan_key :: "planned \<Rightarrow> string \<times> string \<times> numstr" where
  "plan_key p = (from_addr p, to_addr p, toFixed6 (amount p))"

definition report_matches_plan :: "preview_state \<Rightarrow> bool" where
  "report_matches_plan st =
     (previewLines st = Header # map Row (rows_of (previewLines st)) \<and>
      map row_key (rows_of (previewLines st)) = map plan_key (result st))"

text \<open>
  What the planner does with one line of the address file, in the words of the
  specification: the pass throws and ends the planner (\<open>Aborted\<close>); the balance query
  failed and the line is recorded nowhere (\<open>Unrecorded\<close>); the line is skipped, with its
  report row and the reason (\<open>Skipped_line\<close>); or the line is accepted, with its report
  row and its plan entry (\<open>Planned_line\<close>).  \<open>fates\<close> classifies the lines of the file
  in order, the \<open>i\<close>-th line with the index \<open>i\<close> the loop gives it; the four functions
  after it read off a list of fates the errors thrown, the rows of the accepted lines, the
  plan entries and the skip records.
\<close>

datatype line_fate =
    Aborted js_error
  | Unrecorded
  | Skipped_line report_row skip_reason
  | Planned_line report_row planned

definition line_fate :: "environment \<Rightarrow> config \<Rightarrow> nat \<Rightarrow> string \<Rightarrow> line_fate" where
  "line_fate env cfg i line =
     (case destructure line of (pk, to) \<Rightarrow>
      (case wallet_ctor env (trim pk) of
         Inl e \<Rightarrow> Aborted e
       | Inr src \<Rightarrow>
          (case query_balance env (tokenIsNative cfg) i src of
             Inl e \<Rightarrow> Unrecorded
           | Inr raw \<Rightarrow>
              (case compute_amount env cfg i (parseFloat (toReadable raw (decimals cfg))) of
                 Inl e \<Rightarrow> Aborted e
               | Inr a \<Rightarrow>
                  (case trim_to to of
                     Inl e \<Rightarrow> Aborted e
                   | Inr dest \<Rightarrow>
                      (let b = parseFloat (toReadable raw (decimals cfg));
                           row = \<lparr>row_index = i + 1, row_from = src,
                                   row_balance = toReadable raw (decimals cfg), row_to = dest,
                                   row_symbol = symbol cfg, row_amount = toFixed6 a\<rparr>
                       in if js_le b (Fin 0) then Skipped_line row zero_balance
                          else if js_le a (Fin 0) \<or> js_gt a b
                            then Skipped_line row insufficient_balance
                            else Planned_line row
                                   \<lparr>privateKey = pk, from_addr = src, to_addr = dest,
                                     amount = a\<rparr>))))))"

fun fates :: "environment \<Rightarrow> config \<Rightarrow> nat \<Rightarrow> string list \<Rightarrow> line_fate list" where
  "fates env cfg i [] = []"
| "fates env cfg i (l # ls) = line_fate env cfg i l # fates env cfg (i + 1) ls"

fun aborted :: "line_fate list \<Rightarrow> js_error list" where
  "aborted [] = []"
| "aborted (Aborted e # fs) = e # aborted fs"
| "aborted (_ # fs) = aborted fs"

fun planned_rows :: "line_fate list \<Rightarrow> report_row list" where
  "planned_rows [] = []"
| "planned_rows (Planned_line r p # fs) = r # planned_rows fs"
| "planned_rows (_ # fs) = planned_rows fs"

fun planned_entries :: "line_fate list \<Rightarrow> planned list" where
  "planned_entries [] = []"
| "planned_entries (Planned_line r p # fs) = p # planned_entries fs"
| "planned_entries (_ # fs) = planned_entries fs"

fun skip_records :: "line_fate list \<Rightarrow> (report_row \<times> skip_reason) list" where
  "skip_records [] = []"
| "skip_records (Skipped_line r why # fs) = (r, why) # skip_records fs"
| "skip_records (_ # fs) = skip_records fs"

text \<open>
  An event of the runner without the hash or the message: the outcome of a plan entry, or a
  pause.  \<open>conversions_succeed\<close> says that nothing is thrown for a plan entry before the
  \<open>try\<close>.
\<close>

datatype event_shape = Outcome string string jsnum | Pause

fun shape_of :: "event \<Rightarrow> event_shape" where
  "shape_of (Success l) = Outcome (log_from l) (log_to l) (log_amount l)"
| "shape_of (Failure l) = Outcome (log_from l) (log_to l) (log_amount l)"
| "shape_of Delay = Pause"

definition conversions_succeed :: "environment \<Rightarrow> config \<Rightarrow> planned \<Rightarrow> bool" where
  "conversions_succeed env cfg p =
     (\<not> isl (wallet_ctor env (privateKey p)) \<and>
      \<not> isl (parse_units env (amount p) (decimals cfg)) \<and>
      \<not> isl (gas_overrides env cfg))"

subsection \<open>A concrete run\<close>

text \<open>
  An environment and a configuration to run the model on: a token with two decimals, every
  address holding 500 base units (a balance of 5), and a wallet constructor that, like the
  library's, takes the key \<open>k\<close> and refuses a string that is not a key, such as the same
  key with a blank before it.  \<open>flaky\<close> is an operation that fails twice with errors
  \<open>withRetry\<close> retries and then succeeds, \<open>refused\<close> one that always fails with an
  error it does not retry, \<open>failing_once\<close> one that fails once and then succeeds.
\<close>

definition invalid_key :: js_error where
  "invalid_key = JsError (Some (CodeStr ''INVALID_ARGUMENT'')) (Some ''invalid hexlify value'')"

definition example_env :: environment where
  "example_env =
     \<lparr>wallet_ctor = (\<lambda>k. if k = ''k'' then Inr ''0xfrom'' else Inl invalid_key),
      query_balance = (\<lambda>native i a. Inr 500),
      random = (\<lambda>i. 1 / 2),
      parse_units = (\<lambda>x d. case x of
                        Fin q \<Rightarrow> Inr (nat \<lfloor>q * 10 ^ d\<rfloor>)
                      | _ \<Rightarrow> Inl (JsError (Some (CodeStr ''INVALID_ARGUMENT''))
                                      (Some ''invalid decimal value''))),
      contract_ctor = (\<lambda>a. None),
      submit = (\<lambda>j k tx. Inr ''0xhash'')\<rparr>"

definition example_cfg :: config where
  "example_cfg =
     \<lparr>tokenAddress = ''0x5FbDB2315678afecb367f032d93F642f64180aa3'', transferMode = ''remain'',
      fixedAmount = Fin 0, minAmount = Fin 1, maxAmount = Fin 2, percent = Fin 0,
      remainAmount = Fin 3, randomDecimals = Some 6, gasPriceMode = ''auto'',
      gasPriceGwei = Fin 5, gasLimitMode = ''auto'', gasLimit = Some 21000, decimals = 2,
      symbol = ''TKN''\<rparr>"

definition server_error :: js_error where
  "server_error = JsError (Some (CodeStr ''SERVER_ERROR'')) (Some ''bad gateway'')"

definition no_response :: js_error where
  "no_response = JsError None (Some ''failed: no response from the node'')"

definition insufficient_funds :: js_error where
  "insufficient_funds =
     JsError (Some (CodeStr ''INSUFFICIENT_FUNDS'')) (Some ''insufficient funds for gas'')"

definition flaky :: "nat \<Rightarrow> js_error + string" where
  "flaky k = (if k = 0 then Inl server_error else if k = 1 then Inl no_response else Inr ''0xhash'')"

definition refused :: "nat \<Rightarrow> js_error + string" where
  "refused k = Inl insufficient_funds"

definition failing_once :: "nat \<Rightarrow> js_error + string" where
  "failing_once k = (if k = 0 then Inl server_error else Inr ''0xhash'')"

text \<open>
  The states the planner ends in on the single line \<open>k:d\<close>: with the configuration above
  (5 held, 3 to remain, so 2 to send) and with 5 to remain (nothing to send).
\<close>

definition example_row :: "numstr \<Rightarrow> report_row" where
  "example_row a =
     \<lparr>row_index = 1, row_from = ''0xfrom'', row_balance = SFixed 5 6, row_to = ''d'',
      row_symbol = ''TKN'', row_amount = a\<rparr>"

definition example_entry :: planned where
  "example_entry = \<lparr>privateKey = ''k'', from_addr = ''0xfrom'', to_addr = ''d'', amount = Fin 2\<rparr>"

definition example_planned :: preview_state where
  "example_planned =
     \<lparr>result = [example_entry], skipped = [],
      previewLines = [Header, Row (example_row (SFixed 2 6))]\<rparr>"

definition example_skipped :: preview_state where
  "example_skipped =
     \<lparr>result = [], skipped = [(example_row (SFixed 0 6), insufficient_balance)],
      previewLines = [Header]\<rparr>"

text \<open>
  A run on three lines where the first address holds a balance of 5, the second holds
  nothing and the balance query of the third fails; \<open>mixed_state\<close> is the state the
  planner ends in.
\<close>

definition mixed_env :: environment where
  "mixed_env =
     example_env\<lparr>query_balance :=
       (\<lambda>native i a. if i = 1 then Inr 0 else if i = 2 then Inl server_error else Inr 500)\<rparr>"

definition mixed_skip :: report_row where
  "mixed_skip =
     \<lparr>row_index = 2, row_from = ''0xfrom'', row_balance = SFixed 0 6, row_to = ''d'',
      row_symbol = ''TKN'', row_amount = SFixed 0 6\<rparr>"

definition mixed_state :: preview_state where
  "mixed_state =
     \<lparr>result = [example_entry], skipped = [(mixed_skip, zero_balance)],
      previewLines = [Header, Row (example_row (SFixed 2 6))]\<rparr>"

section \<open>Auxiliary facts\<close>

lemma two_powi_pos: "0 < (2::rat) powi k"
  by (simp add: power_int_def)

lemma bitlen_pos: "0 < n \<Longrightarrow> 1 \<le> bitlen n"
  using bitlen_eq_zero_iff[of n] bitlen_nonneg[of n] by linarith

lemma powi_nat: "0 \<le> k \<Longrightarrow> (2::rat) powi k = 2 ^ nat k"
  by (rule power_int_nonneg_exp)

lemma powi_neg_nat: "0 \<le> k \<Longrightarrow> (2::rat) powi (- k) = 1 / 2 ^ nat k"
  by (simp only: power_int_minus_divide powi_nat)

lemma ilog2_ge1:
  assumes "1 \<le> x"
  shows "2 powi ilog2 x \<le> x" and "x < 2 powi (ilog2 x + 1)"
proof -
  define n where "n = \<lfloor>x\<rfloor>"
  have n: "1 \<le> n" using assms by (simp add: n_def)
  have b: "1 \<le> bitlen n" using n by (intro bitlen_pos) simp
  have il: "ilog2 x = bitlen n - 1" using assms by (simp add: ilog2_def n_def)
  have bb: "(2::int) ^ nat (bitlen n - 1) \<le> n" "n < 2 ^ nat (bitlen n)"
    using bitlen_bounds[of n] n by simp_all
  have "(of_int (2 ^ nat (bitlen n - 1)) :: rat) \<le> of_int n" using bb(1) by (simp only: of_int_le_iff)
  also have "\<dots> \<le> x" by (simp add: n_def)
  finally have lo: "(2::rat) ^ nat (bitlen n - 1) \<le> x" by simp
  have "2 powi ilog2 x = (2::rat) ^ nat (bitlen n - 1)"
    unfolding il using b by (intro powi_nat) simp
  then show "2 powi ilog2 x \<le> x" using lo by simp
  have "n + 1 \<le> 2 ^ nat (bitlen n)" using bb(2) by simp
  then have "(of_int (n + 1) :: rat) \<le> of_int (2 ^ nat (bitlen n))" by (simp only: of_int_le_iff)
  moreover have "x < of_int (n + 1)" unfolding n_def by linarith
  ultimately have hi: "x < 2 ^ nat (bitlen n)" by simp
  have "ilog2 x + 1 = bitlen n" using il by simp
  then have "2 powi (ilog2 x + 1) = (2::rat) ^ nat (bitlen n)"
    using b by (simp only: powi_nat)
  then show "x < 2 powi (ilog2 x + 1)" using hi by simp
qed

lemma ilog2_lt1:
  assumes "0 < x" "x < 1"
  shows "2 powi ilog2 x \<le> x" and "x < 2 powi (ilog2 x + 1)"
proof -
  define m where "m = \<lceil>1 / x\<rceil> - 1"
  have y: "1 < 1 / x" using assms by simp
  have m1: "1 \<le> m" using y unfolding m_def by linarith
  have b: "1 \<le> bitlen m" using m1 by (intro bitlen_pos) simp
  have il: "ilog2 x = - bitlen m" using assms by (simp add: ilog2_def m_def)
  have bb: "(2::int) ^ nat (bitlen m - 1) \<le> m" "m < 2 ^ nat (bitlen m)"
    using bitlen_bounds[of m] m1 by simp_all
  have "m + 1 \<le> 2 ^ nat (bitlen m)" using bb(2) by simp
  then have "(of_int (m + 1) :: rat) \<le> of_int (2 ^ nat (bitlen m))" by (simp only: of_int_le_iff)
  moreover have "1 / x \<le> of_int (m + 1)" unfolding m_def by simp
  ultimately have "1 / x \<le> 2 ^ nat (bitlen m)" by simp
  then have lo: "1 / 2 ^ nat (bitlen m) \<le> x" using assms(1)
    by (simp add: field_simps)
  have "2 powi ilog2 x = 1 / (2::rat) ^ nat (bitlen m)"
    unfolding il using b by (intro powi_neg_nat) simp
  then show "2 powi ilog2 x \<le> x" using lo by simp
  have "(of_int (2 ^ nat (bitlen m - 1)) :: rat) \<le> of_int m" using bb(1) by (simp only: of_int_le_iff)
  then have "(2::rat) ^ nat (bitlen m - 1) \<le> of_int m" by (simp only: of_int_power of_int_numeral)
  moreover have "of_int m < 1 / x" unfolding m_def by linarith
  ultimately have "2 ^ nat (bitlen m - 1) < 1 / x" by linarith
  then have hi: "x < 1 / 2 ^ nat (bitlen m - 1)" using assms(1)
    by (simp add: field_simps)
  have "ilog2 x + 1 = - (bitlen m - 1)" using il by simp
  then have "2 powi (ilog2 x + 1) = 1 / (2::rat) ^ nat (bitlen m - 1)"
    using b by (simp only: powi_neg_nat)
  then show "x < 2 powi (ilog2 x + 1)" using hi by simp
qed

lemma ilog2_bounds:
  assumes "0 < x"
  shows "2 powi ilog2 x \<le> x" and "x < 2 powi (ilog2 x + 1)"
  using assms ilog2_ge1[of x] ilog2_lt1[of x] by (cases "1 \<le> x"; simp)+

lemma rne_cases: "rne q = \<lfloor>q\<rfloor> \<or> rne q = \<lfloor>q\<rfloor> + 1"
  by (simp add: rne_def Let_def)

lemma rne_of_int [simp]: "rne (of_int M) = M"
  by (simp add: rne_def Let_def)

lemma rne_ge: "of_int M \<le> q \<Longrightarrow> M \<le> rne q"
proof -
  assume "of_int M \<le> q"
  then have "M \<le> \<lfloor>q\<rfloor>" by (simp add: le_floor_iff)
  then show ?thesis using rne_cases[of q] by auto
qed

lemma rne_le: "q \<le> of_int M \<Longrightarrow> rne q \<le> M"
proof (cases "q = of_int M")
  case True
  then show ?thesis by simp
next
  case False
  assume "q \<le> of_int M"
  with False have "q < of_int M" by simp
  then have "\<lfloor>q\<rfloor> < M" by (simp add: floor_less_iff)
  then show ?thesis using rne_cases[of q] by auto
qed

lemma rnd64_nonneg: "0 \<le> x \<Longrightarrow> 0 \<le> rnd64 x"
proof -
  assume x: "0 \<le> x"
  have "0 \<le> x / 2 powi ulp_exp x" using x two_powi_pos[of "ulp_exp x"] by simp
  then have "0 \<le> rne (x / 2 powi ulp_exp x)" using rne_ge[of 0] by simp
  then show ?thesis using two_powi_pos[of "ulp_exp x"] by (simp add: rnd64_def)
qed

lemma rnd64_nonpos: "x \<le> 0 \<Longrightarrow> rnd64 x \<le> 0"
proof -
  assume x: "x \<le> 0"
  have "x / 2 powi ulp_exp x \<le> 0" using x two_powi_pos[of "ulp_exp x"] by (simp add: divide_le_0_iff)
  then have "rne (x / 2 powi ulp_exp x) \<le> 0" using rne_le[of _ 0] by simp
  then show ?thesis using two_powi_pos[of "ulp_exp x"] by (simp add: rnd64_def mult_le_0_iff)
qed


lemma powi_add: "(2::rat) powi (a + b) = 2 powi a * 2 powi b"
  by (rule power_int_add) simp

lemma powi_mono: "a \<le> b \<Longrightarrow> (2::rat) powi a \<le> 2 powi b"
  by (rule power_int_increasing) simp_all

lemma powi_strict: "a < b \<Longrightarrow> (2::rat) powi a < 2 powi b"
  by (rule power_int_strict_increasing) simp_all

lemma powi_less_cancel: "(2::rat) powi a < 2 powi b \<Longrightarrow> a < b"
  using powi_mono[of b a] by (cases "a < b") auto

lemma powi_split: "j \<le> k \<Longrightarrow> (2::rat) powi k = of_int (2 ^ nat (k - j)) * 2 powi j"
proof -
  assume "j \<le> k"
  then have "(2::rat) powi (k - j) = 2 ^ nat (k - j)" by (intro powi_nat) simp
  moreover have "(2::rat) powi k = 2 powi (k - j) * 2 powi j"
    using powi_add[of "k - j" j] by simp
  ultimately show ?thesis by simp
qed

lemma ulp_exp_pos:
  assumes "0 < x"
  shows "- 1074 \<le> ulp_exp x" and "ilog2 x - 52 \<le> ulp_exp x"
    and "ulp_exp x = - 1074 \<or> ulp_exp x = ilog2 x - 52"
  using assms by (auto simp: ulp_exp_def max_def)

lemma rnd64_pos_eq:
  "0 < x \<Longrightarrow> rnd64 x = of_int (rne (x / 2 powi ulp_exp x)) * 2 powi ulp_exp x"
  by (simp add: rnd64_def)

lemma powi_53: "of_int (2 ^ 53) * (2::rat) powi k = 2 powi (53 + k)"
proof -
  have "(2::rat) powi 53 = of_int (2 ^ 53)" by simp
  then show ?thesis by (simp only: powi_add)
qed

lemma powi_52: "of_int (2 ^ 52) * (2::rat) powi k = 2 powi (52 + k)"
proof -
  have "(2::rat) powi 52 = of_int (2 ^ 52)" by simp
  then show ?thesis by (simp only: powi_add)
qed

lemma grid_scale:
  assumes "j \<le> k"
  shows "of_int m * (2::rat) powi k = of_int (m * 2 ^ nat (k - j)) * 2 powi j"
  by (simp only: powi_split[OF assms] of_int_mult mult.assoc)

lemma scaled_le: "(a::rat) \<le> b \<Longrightarrow> 0 < u \<Longrightarrow> a * u \<le> b * u"
  by (rule mult_right_mono) simp_all

text \<open>A grid point above x is not crossed.\<close>

lemma no_cross_up:
  assumes x: "0 < x" and le: "x \<le> c" and c: "c = of_int m * 2 powi k"
    and m: "m < 2 ^ 53" and k: "- 1074 \<le> k"
  shows "rnd64 x \<le> c"
proof -
  define j where "j = ulp_exp x"
  have up: "0 < (2::rat) powi j" by (rule two_powi_pos)
  have r: "rnd64 x = of_int (rne (x / 2 powi j)) * 2 powi j"
    unfolding j_def by (rule rnd64_pos_eq[OF x])
  have jk: "j \<le> k"
  proof (cases "j = - 1074")
    case True
    then show ?thesis using k by simp
  next
    case False
    then have je: "j = ilog2 x - 52" using ulp_exp_pos(3)[OF x] by (simp add: j_def)
    have "(of_int m :: rat) < of_int (2 ^ 53)" using m by (simp only: of_int_less_iff)
    then have "(of_int m :: rat) * 2 powi k < of_int (2 ^ 53) * 2 powi k"
      using two_powi_pos[of k] by (rule mult_strict_right_mono)
    then have "c < 2 powi (53 + k)" by (simp only: c powi_53)
    moreover have "2 powi ilog2 x \<le> x" by (rule ilog2_bounds(1)[OF x])
    ultimately have "(2::rat) powi ilog2 x < 2 powi (53 + k)" using le by linarith
    then have "ilog2 x < 53 + k" by (rule powi_less_cancel)
    then show ?thesis using je by simp
  qed
  define M where "M = m * 2 ^ nat (k - j)"
  have cM: "c = of_int M * 2 powi j"
    unfolding c M_def by (rule grid_scale[OF jk])
  have "x \<le> of_int M * 2 powi j" using le cM by simp
  then have "x / 2 powi j \<le> of_int M" by (simp only: pos_divide_le_eq[OF up])
  then have "rne (x / 2 powi j) \<le> M" by (rule rne_le)
  then have "(of_int (rne (x / 2 powi j)) :: rat) \<le> of_int M" by (simp only: of_int_le_iff)
  then have "(of_int (rne (x / 2 powi j)) :: rat) * 2 powi j \<le> of_int M * 2 powi j"
    using up by (rule scaled_le)
  then show ?thesis by (simp only: r cM)
qed

text \<open>A grid point below x is not crossed.\<close>

lemma no_cross_down:
  assumes x: "0 < x" and le: "c \<le> x" and c: "c = of_int m * 2 powi k"
    and m: "m < 2 ^ 53" and k: "- 1074 \<le> k"
  shows "c \<le> rnd64 x"
proof -
  define j where "j = ulp_exp x"
  have up: "0 < (2::rat) powi j" by (rule two_powi_pos)
  have r: "rnd64 x = of_int (rne (x / 2 powi j)) * 2 powi j"
    unfolding j_def by (rule rnd64_pos_eq[OF x])
  show ?thesis
  proof (cases "j \<le> k")
    case jk: True
    define M where "M = m * 2 ^ nat (k - j)"
    have cM: "c = of_int M * 2 powi j"
      unfolding c M_def by (rule grid_scale[OF jk])
    have "of_int M * 2 powi j \<le> x" using le cM by simp
    then have "of_int M \<le> x / 2 powi j" by (simp only: pos_le_divide_eq[OF up])
    then have "M \<le> rne (x / 2 powi j)" by (rule rne_ge)
    then have "(of_int M :: rat) \<le> of_int (rne (x / 2 powi j))" by (simp only: of_int_le_iff)
    then have "(of_int M :: rat) * 2 powi j \<le> of_int (rne (x / 2 powi j)) * 2 powi j"
      using up by (rule scaled_le)
    then show ?thesis by (simp only: r cM)
  next
    case False
    then have kj: "k < j" by simp
    then have "j \<noteq> - 1074" using k by simp
    then have je: "ilog2 x = 52 + j" using ulp_exp_pos(3)[OF x] by (simp add: j_def)
    have "(of_int m :: rat) < of_int (2 ^ 53)" using m by (simp only: of_int_less_iff)
    then have "(of_int m :: rat) * 2 powi k < of_int (2 ^ 53) * 2 powi k"
      using two_powi_pos[of k] by (rule mult_strict_right_mono)
    then have "c < 2 powi (53 + k)" by (simp only: c powi_53)
    moreover have "(2::rat) powi (53 + k) \<le> 2 powi (52 + j)" using kj by (intro powi_mono) simp
    ultimately have c_lt: "c < 2 powi (52 + j)" by linarith
    have "2 powi (52 + j) \<le> x" using ilog2_bounds(1)[OF x] by (simp only: je)
    then have "of_int (2 ^ 52) * 2 powi j \<le> x" by (simp only: powi_52)
    then have "of_int (2 ^ 52) \<le> x / 2 powi j" by (simp only: pos_le_divide_eq[OF up])
    then have "2 ^ 52 \<le> rne (x / 2 powi j)" by (rule rne_ge)
    then have "(of_int (2 ^ 52) :: rat) \<le> of_int (rne (x / 2 powi j))" by (simp only: of_int_le_iff)
    then have "(of_int (2 ^ 52) :: rat) * 2 powi j \<le> of_int (rne (x / 2 powi j)) * 2 powi j"
      using up by (rule scaled_le)
    then have "2 powi (52 + j) \<le> rnd64 x" by (simp only: r powi_52)
    then show ?thesis using c_lt by linarith
  qed
qed

text \<open>The rounded value is itself a grid point.\<close>

lemma rnd64_on_grid:
  assumes x: "0 < x"
  shows "\<exists>m k. rnd64 x = of_int m * 2 powi k \<and> 0 \<le> m \<and> m < 2 ^ 53 \<and> - 1074 \<le> k"
proof -
  define j where "j = ulp_exp x"
  define N where "N = rne (x / 2 powi j)"
  have up: "0 < (2::rat) powi j" by (rule two_powi_pos)
  have r: "rnd64 x = of_int N * 2 powi j"
    unfolding j_def N_def by (rule rnd64_pos_eq[OF x])
  have j: "- 1074 \<le> j" using ulp_exp_pos(1)[OF x] by (simp add: j_def)
  have "0 \<le> x / 2 powi j" using x up by simp
  then have N0: "0 \<le> N" unfolding N_def using rne_ge[of 0] by simp
  have "x < 2 powi (ilog2 x + 1)" by (rule ilog2_bounds(2)[OF x])
  moreover have "(2::rat) powi (ilog2 x + 1) \<le> 2 powi (53 + j)"
    using ulp_exp_pos(2)[OF x] by (intro powi_mono) (simp add: j_def)
  ultimately have "x \<le> 2 powi (53 + j)" by linarith
  then have "x \<le> of_int (2 ^ 53) * 2 powi j" by (simp only: powi_53)
  then have "x / 2 powi j \<le> of_int (2 ^ 53)" by (simp only: pos_divide_le_eq[OF up])
  then have N53: "N \<le> 2 ^ 53" unfolding N_def by (rule rne_le)
  show ?thesis
  proof (cases "N = 2 ^ 53")
    case True
    have "(2::rat) powi (53 + j) = 2 powi (52 + (j + 1))" by (simp add: add.commute add.left_commute)
    then have "of_int (2 ^ 53) * (2::rat) powi j = of_int (2 ^ 52) * 2 powi (j + 1)"
      by (simp only: powi_53 powi_52)
    then have "rnd64 x = of_int (2 ^ 52) * 2 powi (j + 1)" by (simp only: r True)
    moreover have "(0::int) \<le> 2 ^ 52" "(2::int) ^ 52 < 2 ^ 53" "- 1074 \<le> j + 1"
      using j by simp_all
    ultimately show ?thesis by blast
  next
    case False
    then have "N < 2 ^ 53" using N53 by simp
    then show ?thesis using r N0 j by blast
  qed
qed

lemma rnd64_fix:
  assumes "0 < c" "c = of_int m * 2 powi k" "m < 2 ^ 53" "- 1074 \<le> k"
  shows "rnd64 c = c"
  using no_cross_up[OF assms(1) order_refl assms(2,3,4)]
        no_cross_down[OF assms(1) order_refl assms(2,3,4)] by simp

text \<open>Rounding an integer gives an integer.\<close>

lemma rnd64_int:
  assumes z: "0 < z"
  shows "\<exists>z'. rnd64 (of_int z) = of_int z'"
proof -
  define x :: rat where "x = of_int z"
  have x: "0 < x" using z by (simp add: x_def)
  define j where "j = ulp_exp x"
  have r: "rnd64 x = of_int (rne (x / 2 powi j)) * 2 powi j"
    unfolding j_def by (rule rnd64_pos_eq[OF x])
  show ?thesis
  proof (cases "0 \<le> j")
    case True
    have "(2::rat) powi j = of_int (2 ^ nat j)" using powi_nat[OF True] by simp
    then have "rnd64 x = of_int (rne (x / 2 powi j) * 2 ^ nat j)"
      using r by (simp only: of_int_mult)
    then show ?thesis unfolding x_def by blast
  next
    case False
    then have nj: "0 \<le> - j" by simp
    define P :: int where "P = 2 ^ nat (- j)"
    have Ppos: "0 < (of_int P :: rat)" by (simp add: P_def)
    have "(2::rat) powi (- (- j)) = 1 / 2 ^ nat (- j)" by (rule powi_neg_nat[OF nj])
    then have p: "(2::rat) powi j = 1 / of_int P" by (simp add: P_def)
    have "x / 2 powi j = of_int (z * P)" unfolding p x_def by simp
    then have "rne (x / 2 powi j) = z * P" by (simp only: rne_of_int)
    then have "rnd64 x = of_int (z * P) * (1 / of_int P)"
      using r by (simp only: p)
    then have "rnd64 x = of_int z" using Ppos by simp
    then show ?thesis unfolding x_def by blast
  qed
qed

lemma on_grid_rnd64: "0 < x \<Longrightarrow> on_grid (rnd64 x)"
  unfolding on_grid_def by (rule rnd64_on_grid)

lemma on_grid_pow2: "0 \<le> k \<Longrightarrow> on_grid (2 ^ nat k)"
proof -
  assume k: "0 \<le> k"
  have "(2::rat) ^ nat k = of_int 1 * 2 powi k" using powi_nat[OF k] by simp
  moreover have "(0::int) \<le> 1" "(1::int) < 2 ^ 53" "- 1074 \<le> k" using k by simp_all
  ultimately show ?thesis unfolding on_grid_def by blast
qed

lemma on_grid_1: "on_grid 1"
  using on_grid_pow2[of 0] by simp

lemma on_grid_2: "on_grid 2"
  using on_grid_pow2[of 1] by simp

lemma on_grid_double: "on_grid c \<Longrightarrow> on_grid (2 * c)"
proof -
  assume "on_grid c"
  then obtain m k where g: "c = of_int m * 2 powi k" "0 \<le> m" "m < 2 ^ 53" "- 1074 \<le> k"
    unfolding on_grid_def by blast
  have "(2::rat) powi (k + 1) = 2 powi k * 2" by (simp only: powi_add power_int_1_right)
  then have "2 * c = of_int m * 2 powi (k + 1)" using g(1) by simp
  moreover have "- 1074 \<le> k + 1" using g(4) by simp
  ultimately show ?thesis unfolding on_grid_def using g(2,3) by blast
qed

lemma rnd64_zero [simp]: "rnd64 0 = 0"
  by (simp add: rnd64_def)

lemma rnd64_le_grid: "0 \<le> x \<Longrightarrow> x \<le> c \<Longrightarrow> on_grid c \<Longrightarrow> rnd64 x \<le> c"
proof (cases "x = 0")
  case True
  assume "x \<le> c"
  then show ?thesis using True by simp
next
  case False
  assume "0 \<le> x" "x \<le> c" "on_grid c"
  then show ?thesis using False unfolding on_grid_def
    by (auto intro: no_cross_up)
qed

lemma rnd64_ge_grid: "0 < x \<Longrightarrow> c \<le> x \<Longrightarrow> on_grid c \<Longrightarrow> c \<le> rnd64 x"
  unfolding on_grid_def by (auto intro: no_cross_down)

lemma rnd64_grid_fix: "0 < c \<Longrightarrow> on_grid c \<Longrightarrow> rnd64 c = c"
  unfolding on_grid_def by (auto intro: rnd64_fix)

lemma fl_cases:
  "fl x = Fin (rnd64 x) \<or> (fl x = PInf \<and> 0 < rnd64 x) \<or> (fl x = NInf \<and> rnd64 x < 0)"
  by (auto simp: fl_def Let_def)

lemma fl_not_nan: "\<not> is_nan (fl x)"
  using fl_cases[of x] by auto

lemma fl_Fin:
  assumes "\<bar>rnd64 x\<bar> < 2 ^ 1024"
  shows "fl x = Fin (rnd64 x)"
proof (cases "rnd64 x = 0")
  case True
  then show ?thesis by (simp add: fl_def)
next
  case False
  then have pos: "0 < \<bar>rnd64 x\<bar>" by simp
  have "2 powi ilog2 \<bar>rnd64 x\<bar> \<le> \<bar>rnd64 x\<bar>" by (rule ilog2_bounds(1)[OF pos])
  moreover have "(2::rat) ^ 1024 = 2 powi 1024" by simp
  ultimately have "(2::rat) powi ilog2 \<bar>rnd64 x\<bar> < 2 powi 1024" using assms by linarith
  then have "ilog2 \<bar>rnd64 x\<bar> < 1024" by (rule powi_less_cancel)
  then show ?thesis by (simp add: fl_def Let_def)
qed

lemma pow2_400: "(2::rat) ^ 400 < 2 ^ 1024"
  by (rule power_strict_increasing) simp_all

lemma fl_small: "0 \<le> x \<Longrightarrow> x \<le> 2 ^ 400 \<Longrightarrow> fl x = Fin (rnd64 x)"
proof -
  assume x: "0 \<le> x" "x \<le> 2 ^ 400"
  have "rnd64 x \<le> 2 ^ nat 400" using x on_grid_pow2[of 400] by (intro rnd64_le_grid) simp_all
  then have "rnd64 x < 2 ^ 1024" using pow2_400 by simp
  moreover have "0 \<le> rnd64 x" by (rule rnd64_nonneg[OF x(1)])
  ultimately have "\<bar>rnd64 x\<bar> < 2 ^ 1024" by simp
  then show ?thesis by (rule fl_Fin)
qed

lemma ten_pow_bound: "d \<le> 100 \<Longrightarrow> (10::rat) ^ d \<le> 2 ^ 399"
proof -
  assume "d \<le> 100"
  then have "(10::rat) ^ d \<le> 10 ^ 100" by (intro power_increasing) simp_all
  also have "\<dots> \<le> 16 ^ 99" by simp
  also have "\<dots> = (2 ^ 4) ^ 99" by simp
  also have "\<dots> = 2 ^ 396" by (simp only: power_mult [symmetric]) simp
  also have "\<dots> \<le> 2 ^ 399" by (rule power_increasing) simp_all
  finally show ?thesis .
qed

lemma factor_props:
  assumes d: "d \<le> 100"
  defines "F \<equiv> rnd64 (10 ^ d)"
  shows "1 \<le> F" and "F \<le> 2 ^ 399" and "on_grid F" and "\<exists>z. F = of_int z"
    and "js_pow10 (Some (int d)) = Fin F"
proof -
  have pos: "(0::rat) < 10 ^ d" by simp
  have one: "(1::rat) \<le> 10 ^ d" by simp
  show 1: "1 \<le> F" unfolding F_def using pos one on_grid_1 by (rule rnd64_ge_grid)
  have "(10::rat) ^ d \<le> 2 ^ nat 399" using ten_pow_bound[OF d] by simp
  then have "F \<le> 2 ^ nat 399" unfolding F_def using pos on_grid_pow2[of 399]
    by (intro rnd64_le_grid) simp_all
  then show 2: "F \<le> 2 ^ 399" by simp
  show "on_grid F" unfolding F_def using pos by (rule on_grid_rnd64)
  have "\<exists>z'. rnd64 (of_int (10 ^ d)) = of_int z'" by (rule rnd64_int) simp
  then show "\<exists>z. F = of_int z" unfolding F_def by simp
  have "(10::rat) ^ d \<le> 2 ^ 400"
  proof -
    have "(2::rat) ^ 399 \<le> 2 ^ 400" by (rule power_increasing) simp_all
    then show ?thesis using ten_pow_bound[OF d] by linarith
  qed
  then have "fl (10 ^ d) = Fin F" unfolding F_def by (intro fl_small) simp_all
  then show "js_pow10 (Some (int d)) = Fin F" by simp
qed

lemma fl_fix_small: "0 < c \<Longrightarrow> c \<le> 2 ^ 400 \<Longrightarrow> on_grid c \<Longrightarrow> fl c = Fin c"
  using fl_small[of c] rnd64_grid_fix[of c] by simp

lemma fl_between:
  assumes "0 \<le> x" "lo \<le> x" "x \<le> hi" "on_grid lo" "on_grid hi" "hi \<le> 2 ^ 400"
  shows "\<exists>y. fl x = Fin y \<and> lo \<le> y \<and> y \<le> hi"
proof -
  have "fl x = Fin (rnd64 x)" using assms by (intro fl_small) simp_all
  moreover have "rnd64 x \<le> hi" using assms by (intro rnd64_le_grid)
  moreover have "lo \<le> rnd64 x"
  proof (cases "x = 0")
    case True
    then show ?thesis using assms(2) by simp
  next
    case False
    then have "0 < x" using assms(1) by simp
    then show ?thesis using assms by (intro rnd64_ge_grid)
  qed
  ultimately show ?thesis by blast
qed

lemma on_grid_0: "on_grid 0"
proof -
  have "(0::rat) = of_int 0 * 2 powi 0" by simp
  moreover have "(0::int) \<le> 0" "(0::int) < 2 ^ 53" "- 1074 \<le> (0::int)" by simp_all
  ultimately show ?thesis unfolding on_grid_def by blast
qed

lemma range_amount_chain:
  assumes r: "0 \<le> r" "r < 1" and d: "d \<le> 100"
  shows "\<exists>n a. randomAmount r (Fin 1) (Fin 2) (Some (int d)) = Inr (SFixed (of_int n / 10 ^ d) d)
           \<and> parseFloat (SFixed (of_int n / 10 ^ d) d) = Fin a \<and> 1 \<le> a \<and> a \<le> 2"
proof -
  define F where "F = rnd64 (10 ^ d)"
  note fp = factor_props[OF d, folded F_def]
  obtain z where z: "F = of_int z" using fp(4) by blast
  have Fpos: "0 < F" using fp(1) by simp
  have F400: "F \<le> 2 ^ 400"
  proof -
    have "(2::rat) ^ 399 \<le> 2 ^ 400" by (rule power_increasing) simp_all
    then show ?thesis using fp(2) by linarith
  qed
  have F2_400: "2 * F \<le> 2 ^ 400" using fp(2) by simp
  have g2F: "on_grid (2 * F)" using fp(3) by (rule on_grid_double)
  \<comment> \<open>the factor and the two products\<close>
  have mxF: "js_mul (Fin 2) (Fin F) = Fin (2 * F)"
    using fl_fix_small[of "2 * F"] Fpos F2_400 g2F by simp
  have mnF: "js_mul (Fin 1) (Fin F) = Fin F"
    using fl_fix_small[of F] Fpos F400 fp(3) by simp
  have diff: "js_sub (Fin (2 * F)) (Fin F) = Fin F"
    using fl_fix_small[of F] Fpos F400 fp(3) by (simp add: js_sub_def)
  \<comment> \<open>the scaled draw\<close>
  have "0 \<le> r * F" "0 \<le> r * F" "r * F \<le> F"
    using r Fpos by (simp_all add: mult_left_le_one_le)
  then obtain p where p: "fl (r * F) = Fin p" "0 \<le> p" "p \<le> F"
    using fl_between[of "r * F" 0 F] on_grid_0 fp(3) F400 by blast
  have "0 \<le> p + F" "F \<le> p + F" "p + F \<le> 2 * F" using p Fpos by simp_all
  then obtain s where s: "fl (p + F) = Fin s" "F \<le> s" "s \<le> 2 * F"
    using fl_between[of "p + F" F "2 * F"] fp(3) g2F F2_400 by blast
  define k where "k = \<lfloor>s\<rfloor>"
  have k: "z \<le> k" "k \<le> 2 * z"
  proof -
    show "z \<le> k" unfolding k_def using s(2) z by (simp add: le_floor_iff)
    have "s \<le> of_int (2 * z)" using s(3) z by simp
    then have "\<lfloor>s\<rfloor> \<le> 2 * z" by (simp add: floor_le_iff)
    then show "k \<le> 2 * z" by (simp add: k_def)
  qed
  have randInt: "js_floor (js_add (js_mul (Fin r) (js_sub (js_mul (Fin 2) (Fin F)) (js_mul (Fin 1) (Fin F))))
                                     (js_mul (Fin 1) (Fin F))) = Fin (of_int k)"
  proof -
    have rm: "js_mul (Fin r) (Fin F) = Fin p" using p(1) by simp
    have ad: "js_add (Fin p) (Fin F) = Fin s" using s(1) by simp
    show ?thesis by (simp only: mxF mnF diff rm ad js_floor.simps k_def)
  qed
  \<comment> \<open>back to the unit\<close>
  have q: "1 \<le> of_int k / F" "of_int k / F \<le> 2"
  proof -
    have "F \<le> of_int k" using k(1) z by simp
    then show "1 \<le> of_int k / F" using Fpos by (simp add: pos_le_divide_eq)
    have "of_int k \<le> 2 * F" using k(2) z by (simp flip: of_int_le_iff[where 'a = rat])
    then show "of_int k / F \<le> 2" using Fpos by (simp add: pos_divide_le_eq)
  qed
  have "(2::rat) \<le> 2 ^ 400" using power_increasing[of 1 400 "2::rat"] by simp
  then obtain a0 where a0: "fl (of_int k / F) = Fin a0" "1 \<le> a0" "a0 \<le> 2"
    using fl_between[of "of_int k / F" 1 2] q on_grid_1 on_grid_2 by force
  have dv: "js_div (Fin (of_int k)) (Fin F) = Fin a0" using a0(1) Fpos by simp
  \<comment> \<open>the digits\<close>
  define n where "n = \<lfloor>a0 * 10 ^ d + 1 / 2\<rfloor>"
  have fd: "fixed_digits a0 d = of_int n / 10 ^ d"
    using a0(2) by (simp add: fixed_digits_def n_def)
  have n: "10 ^ d \<le> n" "n \<le> 2 * 10 ^ d"
  proof -
    define Z :: int where "Z = 10 ^ d"
    have T: "(10::rat) ^ d = of_int Z" by (simp add: Z_def)
    have n': "n = \<lfloor>a0 * of_int Z + 1 / 2\<rfloor>" unfolding n_def T ..
    have Zpos: "(0::rat) \<le> of_int Z" by (simp add: Z_def)
    have "1 * of_int Z \<le> a0 * of_int Z" using a0(2) Zpos by (rule mult_right_mono)
    then have "of_int Z \<le> a0 * of_int Z + 1 / 2" by linarith
    then have "Z \<le> n" unfolding n' by (simp only: le_floor_iff)
    then show "10 ^ d \<le> n" unfolding Z_def .
    have "a0 * of_int Z \<le> 2 * of_int Z" using a0(3) Zpos by (rule mult_right_mono)
    then have "a0 * of_int Z + 1 / 2 < 2 * of_int Z + 1" by linarith
    also have "(2::rat) * of_int Z + 1 = of_int (2 * Z + 1)" by simp
    finally have "n < 2 * Z + 1" unfolding n' by (simp only: floor_less_iff)
    then show "n \<le> 2 * 10 ^ d" unfolding Z_def by simp
  qed
  have big: "\<not> 10 ^ 21 \<le> \<bar>a0\<bar>" using a0(2,3) by simp
  have tf: "toFixed (Fin a0) (Some (int d)) = Inr (SFixed (of_int n / 10 ^ d) d)"
    using d big by (simp add: fd)
  have ra: "randomAmount r (Fin 1) (Fin 2) (Some (int d)) = Inr (SFixed (of_int n / 10 ^ d) d)"
    unfolding randomAmount_def Let_def fp(5) randInt dv tf ..
  \<comment> \<open>reading the digits back\<close>
  have v: "1 \<le> of_int n / (10::rat) ^ d" "of_int n / (10::rat) ^ d \<le> 2"
  proof -
    have "(of_int (10 ^ d) :: rat) \<le> of_int n" using n(1) by (simp only: of_int_le_iff)
    then show "1 \<le> of_int n / (10::rat) ^ d" by (simp add: pos_le_divide_eq)
    have "(of_int n :: rat) \<le> of_int (2 * 10 ^ d)" using n(2) by (simp only: of_int_le_iff)
    then show "of_int n / (10::rat) ^ d \<le> 2" by (simp add: pos_divide_le_eq)
  qed
  have "(2::rat) \<le> 2 ^ 400" using power_increasing[of 1 400 "2::rat"] by simp
  then obtain a where a: "fl (of_int n / 10 ^ d) = Fin a" "1 \<le> a" "a \<le> 2"
    using fl_between[of "of_int n / 10 ^ d" 1 2] v on_grid_1 on_grid_2 by force
  show ?thesis using ra a by auto
qed

declare withRetry_loop.simps [simp del]

lemma loop_stop:
  "\<not> a \<le> m \<Longrightarrow> withRetry_loop fn m d a c ws = \<lparr>outcome = Inr None, invocations = c, waits = ws\<rparr>"
  by (simp add: withRetry_loop.simps[of fn m d a c ws])

lemma loop_success:
  "a \<le> m \<Longrightarrow> fn c = Inr v \<Longrightarrow>
   withRetry_loop fn m d a c ws = \<lparr>outcome = Inr (Some v), invocations = c + 1, waits = ws\<rparr>"
  by (simp add: withRetry_loop.simps[of fn m d a c ws])

lemma loop_throw:
  "a \<le> m \<Longrightarrow> fn c = Inl e \<Longrightarrow> \<not> retriable e \<or> m < a + 1 \<Longrightarrow>
   withRetry_loop fn m d a c ws = \<lparr>outcome = Inl e, invocations = c + 1, waits = ws\<rparr>"
  by (auto simp add: withRetry_loop.simps[of fn m d a c ws] Let_def)

lemma loop_retry:
  "a \<le> m \<Longrightarrow> fn c = Inl e \<Longrightarrow> retriable e \<Longrightarrow> a + 1 \<le> m \<Longrightarrow>
   withRetry_loop fn m d a c ws =
     withRetry_loop fn m d (a + 1) (c + 1) (ws @ [d * 2 ^ (a + 1)])"
  by (auto simp add: withRetry_loop.simps[of fn m d a c ws] Let_def)

lemma loop_invocations_le:
  "invocations (withRetry_loop fn m d a c ws) \<le> c + (Suc m - a)"
proof (induction fn m d a c ws rule: withRetry_loop.induct)
  case (1 fn m d a c ws)
  show ?case
  proof (cases "a \<le> m")
    case False
    then show ?thesis by (simp add: loop_stop)
  next
    case le: True
    show ?thesis
    proof (cases "fn c")
      case (Inr v)
      with le show ?thesis by (simp add: loop_success)
    next
      case (Inl e)
      show ?thesis
      proof (cases "\<not> retriable e \<or> m < a + 1")
        case True
        with le Inl show ?thesis by (simp add: loop_throw)
      next
        case False
        then have r: "retriable e" "a + 1 \<le> m" by auto
        have "invocations (withRetry_loop fn m d (a + 1) (c + 1) (ws @ [d * 2 ^ (a + 1)]))
                \<le> c + 1 + (Suc m - (a + 1))"
          using "1.IH"[OF le Inl refl refl _ refl] False by simp
        with le Inl r show ?thesis by (simp add: loop_retry)
      qed
    qed
  qed
qed

lemma loop_invocations_gt:
  "a \<le> m \<Longrightarrow> c < invocations (withRetry_loop fn m d a c ws)"
proof (induction fn m d a c ws rule: withRetry_loop.induct)
  case (1 fn m d a c ws)
  note le = \<open>a \<le> m\<close>
  show ?case
  proof (cases "fn c")
    case (Inr v)
    with le show ?thesis by (simp add: loop_success)
  next
    case (Inl e)
    show ?thesis
    proof (cases "\<not> retriable e \<or> m < a + 1")
      case True
      with le Inl show ?thesis by (simp add: loop_throw)
    next
      case False
      then have r: "retriable e" "a + 1 \<le> m" by auto
      have "c + 1 < invocations (withRetry_loop fn m d (a + 1) (c + 1) (ws @ [d * 2 ^ (a + 1)]))"
        using "1.IH"[OF le Inl refl refl _ refl] False by simp
      with le Inl r show ?thesis by (simp add: loop_retry)
    qed
  qed
qed

lemma loop_waits:
  "c = a \<Longrightarrow> waits (withRetry_loop fn m d a c ws) =
     ws @ map (\<lambda>k. d * 2 ^ k) [Suc a ..< invocations (withRetry_loop fn m d a c ws)]"
proof (induction fn m d a c ws rule: withRetry_loop.induct)
  case (1 fn m d a c ws)
  note ca = \<open>c = a\<close>
  show ?case
  proof (cases "a \<le> m")
    case False
    then show ?thesis using ca by (simp add: loop_stop)
  next
    case le: True
    show ?thesis
    proof (cases "fn c")
      case (Inr v)
      with le ca show ?thesis by (simp add: loop_success)
    next
      case (Inl e)
      show ?thesis
      proof (cases "\<not> retriable e \<or> m < a + 1")
        case True
        with le Inl ca show ?thesis by (simp add: loop_throw)
      next
        case False
        then have r: "retriable e" "a + 1 \<le> m" by auto
        let ?rest = "withRetry_loop fn m d (a + 1) (c + 1) (ws @ [d * 2 ^ (a + 1)])"
        have ih: "waits ?rest = (ws @ [d * 2 ^ (a + 1)]) @ map (\<lambda>k. d * 2 ^ k) [Suc (a + 1) ..< invocations ?rest]"
          using "1.IH"[OF le Inl refl refl _ refl] False ca by simp
        have gt: "c + 1 < invocations ?rest"
          using loop_invocations_gt[OF r(2)] .
        have "[Suc a ..< invocations ?rest] = Suc a # [Suc (a + 1) ..< invocations ?rest]"
          using gt ca by (simp add: upt_conv_Cons)
        with ih le Inl r show ?thesis by (simp add: loop_retry)
      qed
    qed
  qed
qed

lemma rows_of_append: "rows_of (xs @ ys) = rows_of xs @ rows_of ys"
  by (induction xs rule: rows_of.induct) simp_all

lemma rows_of_map_Row [simp]: "rows_of (map Row rs) = rs"
  by (induction rs) simp_all

lemma preview_step_cases:
  assumes "preview_step env cfg i line st = Inr st'"
  shows "st' = st \<or> (\<exists>row r. st' = st\<lparr>skipped := skipped st @ [(row, r)]\<rparr>) \<or>
         (\<exists>row p. st' = st\<lparr>previewLines := previewLines st @ [Row row], result := result st @ [p]\<rparr>
            \<and> row_key row = plan_key p)"
proof -
  obtain pk to where d: "destructure line = (pk, to)" by (cases "destructure line")
  show ?thesis
  proof (cases "wallet_ctor env (trim pk)")
    case (Inl e)
    then show ?thesis using assms d by (simp add: preview_step_def)
  next
    case w: (Inr src)
    show ?thesis
    proof (cases "query_balance env (tokenIsNative cfg) i src")
      case (Inl e)
      then show ?thesis using assms d w by (simp add: preview_step_def)
    next
      case q: (Inr raw)
      show ?thesis
      proof (cases "compute_amount env cfg i (parseFloat (toReadable raw (decimals cfg)))")
        case (Inl e)
        then show ?thesis using assms d w q by (simp add: preview_step_def Let_def)
      next
        case a: (Inr amt)
        show ?thesis
        proof (cases "trim_to to")
          case (Inl e)
          then show ?thesis using assms d w q a by (simp add: preview_step_def Let_def)
        next
          case t: (Inr dest)
          define b where "b = parseFloat (toReadable raw (decimals cfg))"
          define row where "row = \<lparr>row_index = i + 1, row_from = src,
              row_balance = toReadable raw (decimals cfg), row_to = dest, row_symbol = symbol cfg,
              row_amount = toFixed6 amt\<rparr>"
          define p where "p = \<lparr>privateKey = pk, from_addr = src, to_addr = dest, amount = amt\<rparr>"
          have key: "row_key row = plan_key p"
            by (simp add: row_key_def plan_key_def row_def p_def)
          have step: "preview_step env cfg i line st =
              (if js_le b (Fin 0) then Inr (st\<lparr>skipped := skipped st @ [(row, zero_balance)]\<rparr>)
               else if js_le amt (Fin 0) \<or> js_gt amt b
                 then Inr (st\<lparr>skipped := skipped st @ [(row, insufficient_balance)]\<rparr>)
                 else Inr (st\<lparr>previewLines := previewLines st @ [Row row],
                              result := result st @ [p]\<rparr>))"
            using d w q a t by (simp add: preview_step_def Let_def b_def row_def p_def)
          consider "st' = st\<lparr>skipped := skipped st @ [(row, zero_balance)]\<rparr>"
            | "st' = st\<lparr>skipped := skipped st @ [(row, insufficient_balance)]\<rparr>"
            | "st' = st\<lparr>previewLines := previewLines st @ [Row row], result := result st @ [p]\<rparr>"
            using assms unfolding step by (auto split: if_splits)
          then show ?thesis using key by cases blast+
        qed
      qed
    qed
  qed
qed

lemma preview_step_inv:
  assumes "preview_step env cfg i line st = Inr st'" and "report_matches_plan st"
  shows "report_matches_plan st'"
    and "length (result st') + length (skipped st') \<le> Suc (length (result st) + length (skipped st))"
proof -
  from preview_step_cases[OF assms(1)]
  consider "st' = st" | row r where "st' = st\<lparr>skipped := skipped st @ [(row, r)]\<rparr>"
    | row p where "st' = st\<lparr>previewLines := previewLines st @ [Row row], result := result st @ [p]\<rparr>"
        "row_key row = plan_key p"
    by blast
  then have "report_matches_plan st' \<and>
      length (result st') + length (skipped st') \<le> Suc (length (result st) + length (skipped st))"
  proof cases
    case 1
    then show ?thesis using assms(2) by simp
  next
    case 2
    then show ?thesis using assms(2) by (simp add: report_matches_plan_def)
  next
    case 3
    obtain rs where rs: "previewLines st = Header # map Row rs" "map row_key rs = map plan_key (result st)"
      using assms(2) unfolding report_matches_plan_def by (metis rows_of_map_Row rows_of.simps(2))
    show ?thesis unfolding 3(1) report_matches_plan_def
      by (simp add: rs rows_of_append 3(2))
  qed
  then show "report_matches_plan st'"
    and "length (result st') + length (skipped st') \<le> Suc (length (result st) + length (skipped st))"
    by simp_all
qed

lemma preview_loop_inv:
  "preview_loop env cfg i ls st = Inr st' \<Longrightarrow> report_matches_plan st \<Longrightarrow>
   report_matches_plan st' \<and>
   length (result st') + length (skipped st') \<le> length ls + (length (result st) + length (skipped st))"
proof (induction ls arbitrary: i st)
  case Nil
  then show ?case by simp
next
  case (Cons l ls)
  from Cons.prems(1) obtain st1 where s1: "preview_step env cfg i l st = Inr st1"
    and rest: "preview_loop env cfg (i + 1) ls st1 = Inr st'"
    by (auto split: sum.splits)
  note inv = preview_step_inv[OF s1 Cons.prems(2)]
  from Cons.IH[OF rest inv(1)] inv(2) show ?case by simp
qed

lemma initial_matches: "report_matches_plan initial_preview"
  by (simp add: report_matches_plan_def initial_preview_def)

lemma attempt_shape:
  "shape_of (attempt_transfer env cfg j p tx) = Outcome (from_addr p) (to_addr p) (amount p)"
  by (simp add: attempt_transfer_def Let_def split: option.splits sum.splits)

lemma executeTransfers_complete:
  "\<forall>p \<in> set plan. conversions_succeed env cfg p \<Longrightarrow>
   snd (executeTransfers env cfg j plan) = None \<and>
   map shape_of (fst (executeTransfers env cfg j plan)) =
     concat (map (\<lambda>p. [Outcome (from_addr p) (to_addr p) (amount p), Pause]) plan)"
proof (induction plan arbitrary: j)
  case Nil
  then show ?case by simp
next
  case (Cons p ps)
  from Cons.prems have c: "conversions_succeed env cfg p" by simp
  obtain w where ok1: "wallet_ctor env (privateKey p) = Inr w"
    using c unfolding conversions_succeed_def by (cases "wallet_ctor env (privateKey p)") simp_all
  obtain v where ok2: "parse_units env (amount p) (decimals cfg) = Inr v"
    using c unfolding conversions_succeed_def
    by (cases "parse_units env (amount p) (decimals cfg)") simp_all
  obtain g where ok3: "gas_overrides env cfg = Inr g"
    using c unfolding conversions_succeed_def by (cases "gas_overrides env cfg") simp_all
  note ok = ok1 ok2 ok3
  obtain gp gl where g: "g = (gp, gl)" by (cases g)
  from Cons.prems have "\<forall>p \<in> set ps. conversions_succeed env cfg p" by simp
  from Cons.IH[OF this, of "j + 1"] show ?case
    by (cases "executeTransfers env cfg (j + 1) ps") (simp add: ok g Let_def attempt_shape)
qed

lemma js_max_sub: "js_max (js_sub (Fin x) (Fin y)) (Fin 0) = fl (max (x - y) 0)"
proof (cases "0 \<le> x - y")
  case True
  then have "0 \<le> rnd64 (x - y)" by (rule rnd64_nonneg)
  moreover have "max (x - y) 0 = x - y" using True by simp
  ultimately show ?thesis
    using fl_cases[of "x - y"] by (auto simp add: js_sub_def js_max_def)
next
  case False
  then have neg: "x - y \<le> 0" by simp
  then have "rnd64 (x - y) \<le> 0" by (rule rnd64_nonpos)
  moreover have "max (x - y) 0 = 0" using neg by simp
  moreover have "fl 0 = Fin 0" by (simp add: fl_def)
  ultimately show ?thesis
    using fl_cases[of "x - y"] by (auto simp add: js_sub_def js_max_def)
qed

lemma toReadable_not_nan: "\<not> is_nan (parseFloat (toReadable raw d))"
proof -
  have "\<not> is_nan (parseFloat (toFixed6 (fl q)))" for q
    using fl_cases[of q] fl_not_nan by (auto simp add: toFixed6_def split: if_splits)
  then show ?thesis by (simp add: toReadable_def)
qed

lemma not_le_zero_iff_gt: "\<not> is_nan b \<Longrightarrow> (\<not> js_le b (Fin 0)) = js_gt b (Fin 0)"
  by (cases b) (auto simp: js_le_def js_gt_def)

lemma preview_step_unfold:
  assumes "destructure line = (pk, Some t)"
    and "wallet_ctor env (trim pk) = Inr from"
    and "query_balance env (tokenIsNative cfg) i from = Inr raw"
    and "compute_amount env cfg i (parseFloat (toReadable raw (decimals cfg))) = Inr a"
  shows "preview_step env cfg i line st =
     (let balance = toReadable raw (decimals cfg); b = parseFloat balance;
          row = \<lparr>row_index = i + 1, row_from = from, row_balance = balance,
                                     row_to = trim t, row_symbol = symbol cfg,
                                     row_amount = toFixed6 a\<rparr>
       in if js_le b (Fin 0) then
                               Inr (st\<lparr>skipped := skipped st @ [(row, zero_balance)]\<rparr>)
                             else if js_le a (Fin 0) \<or> js_gt a b then
                               Inr (st\<lparr>skipped := skipped st @ [(row, insufficient_balance)]\<rparr>)
                             else
                               Inr (st\<lparr>previewLines := previewLines st @ [Row row],
                                       result := result st @
                                         [\<lparr>privateKey = pk, from_addr = from, to_addr = trim t,
                                           amount = a\<rparr>]\<rparr>))"
  using assms by (simp add: preview_step_def trim_to_def Let_def)

lemma preview_step_fate:
  assumes "preview_step env cfg i line st = Inr st'"
  shows "aborted [line_fate env cfg i line] = [] \<and>
         st' = st\<lparr>previewLines := previewLines st @ map Row (planned_rows [line_fate env cfg i line]),
                   result := result st @ planned_entries [line_fate env cfg i line],
                   skipped := skipped st @ skip_records [line_fate env cfg i line]\<rparr>"
proof -
  obtain pk to where d: "destructure line = (pk, to)" by (cases "destructure line")
  show ?thesis
  proof (cases "wallet_ctor env (trim pk)")
    case (Inl e)
    then show ?thesis using assms d by (simp add: preview_step_def)
  next
    case w: (Inr src)
    show ?thesis
    proof (cases "query_balance env (tokenIsNative cfg) i src")
      case (Inl e)
      then show ?thesis using assms d w by (simp add: preview_step_def line_fate_def)
    next
      case q: (Inr raw)
      show ?thesis
      proof (cases "compute_amount env cfg i (parseFloat (toReadable raw (decimals cfg)))")
        case (Inl e)
        then show ?thesis using assms d w q by (simp add: preview_step_def Let_def)
      next
        case a: (Inr amt)
        show ?thesis
        proof (cases "trim_to to")
          case (Inl e)
          then show ?thesis using assms d w q a by (simp add: preview_step_def Let_def)
        next
          case (Inr dest)
          then show ?thesis using assms d w q a
            by (auto simp add: preview_step_def line_fate_def Let_def split: if_splits)
        qed
      qed
    qed
  qed
qed

lemma aborted_append: "aborted (xs @ ys) = aborted xs @ aborted ys"
  by (induction xs rule: aborted.induct) simp_all

lemma planned_rows_append: "planned_rows (xs @ ys) = planned_rows xs @ planned_rows ys"
  by (induction xs rule: planned_rows.induct) simp_all

lemma planned_entries_append: "planned_entries (xs @ ys) = planned_entries xs @ planned_entries ys"
  by (induction xs rule: planned_entries.induct) simp_all

lemma skip_records_append: "skip_records (xs @ ys) = skip_records xs @ skip_records ys"
  by (induction xs rule: skip_records.induct) simp_all

lemma preview_loop_fates:
  "preview_loop env cfg i ls st = Inr st' \<Longrightarrow>
   aborted (fates env cfg i ls) = [] \<and>
   previewLines st' = previewLines st @ map Row (planned_rows (fates env cfg i ls)) \<and>
   result st' = result st @ planned_entries (fates env cfg i ls) \<and>
   skipped st' = skipped st @ skip_records (fates env cfg i ls)"
proof (induction ls arbitrary: i st)
  case Nil
  then show ?case by simp
next
  case (Cons l ls)
  from Cons.prems obtain st1 where s1: "preview_step env cfg i l st = Inr st1"
    and rest: "preview_loop env cfg (i + 1) ls st1 = Inr st'"
    by (auto split: sum.splits)
  note f = preview_step_fate[OF s1]
  have one: "previewLines st1 = previewLines st @ map Row (planned_rows [line_fate env cfg i l])"
    "result st1 = result st @ planned_entries [line_fate env cfg i l]"
    "skipped st1 = skipped st @ skip_records [line_fate env cfg i l]"
    by (subst f[THEN conjunct2], simp)+
  have split: "fates env cfg i (l # ls) = [line_fate env cfg i l] @ fates env cfg (i + 1) ls" by simp
  from Cons.IH[OF rest] f[THEN conjunct1] show ?case
    unfolding split planned_rows_append planned_entries_append skip_records_append
      aborted_append one
    by simp
qed

lemma length_fates: "length (fates env cfg i ls) = length ls"
  by (induction ls arbitrary: i) simp_all

lemma fates_partition:
  "aborted fs = [] \<Longrightarrow>
   length (planned_entries fs) + length (skip_records fs) + count_list fs Unrecorded = length fs"
proof (induction fs)
  case Nil
  then show ?case by simp
next
  case (Cons f fs)
  then show ?case by (cases f) simp_all
qed

section \<open>The claims\<close>

lemma fl_0: "fl 0 = Fin 0"
  by (simp add: fl_def)

lemma fl_2: "fl 2 = Fin 2"
  by code_simp

lemma toFixed6_0: "toFixed6 (Fin 0) = SFixed 0 6"
  by code_simp

text \<open>
  Claim C1.  For an entry, that is a line with a colon whose wallet is built, whose balance
  is read as \<open>b\<close> and whose candidate amount is computed as \<open>a\<close>, one pass of the
  planner's loop skips the entry with reason \<open>zero_balance\<close> exactly when \<open>b <= 0\<close>,
  skips it with reason \<open>insufficient_balance\<close> exactly when \<open>b > 0\<close> and
  (\<open>a <= 0\<close> or \<open>a > b\<close>), and accepts it into the plan exactly in the remaining case.
  The comparisons are the language's.  The two skip conditions exclude each other, so a
  balance of 0 is never recorded as \<open>insufficient_balance\<close>.
\<close>

theorem validation_order:
  assumes "destructure line = (pk, Some t)"
    and "wallet_ctor env (trim pk) = Inr src"
    and "query_balance env (tokenIsNative cfg) i src = Inr raw"
    and "b = parseFloat (toReadable raw (decimals cfg))"
    and "compute_amount env cfg i b = Inr a"
  shows "\<exists>st'. preview_step env cfg i line st = Inr st' \<and>
     (skipped_as zero_balance st st' \<longleftrightarrow> js_le b (Fin 0)) \<and>
     (skipped_as insufficient_balance st st' \<longleftrightarrow>
        js_gt b (Fin 0) \<and> (js_le a (Fin 0) \<or> js_gt a b)) \<and>
     (accepted_as \<lparr>privateKey = pk, from_addr = src, to_addr = trim t, amount = a\<rparr> st st' \<longleftrightarrow>
        \<not> js_le b (Fin 0) \<and> \<not> (js_le a (Fin 0) \<or> js_gt a b))"
proof -
  have nn: "\<not> is_nan b" using assms(4) by (simp add: toReadable_not_nan)
  note gt = not_le_zero_iff_gt[OF nn]
  have step: "preview_step env cfg i line st =
      (let row = \<lparr>row_index = i + 1, row_from = src,
                   row_balance = toReadable raw (decimals cfg), row_to = trim t,
                   row_symbol = symbol cfg, row_amount = toFixed6 a\<rparr>
       in if js_le b (Fin 0) then Inr (st\<lparr>skipped := skipped st @ [(row, zero_balance)]\<rparr>)
          else if js_le a (Fin 0) \<or> js_gt a b
            then Inr (st\<lparr>skipped := skipped st @ [(row, insufficient_balance)]\<rparr>)
            else Inr (st\<lparr>previewLines := previewLines st @ [Row row],
                         result := result st @
                           [\<lparr>privateKey = pk, from_addr = src, to_addr = trim t,
                             amount = a\<rparr>]\<rparr>))"
    using preview_step_unfold[OF assms(1,2,3) assms(5)[unfolded assms(4)]] assms(4)
    by (simp add: Let_def)
  show ?thesis
  proof (cases "js_le b (Fin 0)")
    case True
    then show ?thesis using gt
      by (simp add: step Let_def skipped_as_def accepted_as_def)
  next
    case False
    then show ?thesis using gt
      by (cases "js_le a (Fin 0) \<or> js_gt a b")
         (simp_all add: step Let_def skipped_as_def accepted_as_def)
  qed
qed

lemma example_line: "destructure ''k:d'' = (''k'', Some ''d'')"
  by code_simp

lemma example_wallet: "wallet_ctor example_env (trim ''k'') = Inr ''0xfrom''"
  by code_simp

lemma example_balance:
  "query_balance example_env (tokenIsNative cfg) i ''0xfrom'' = Inr 500"
  by (simp add: example_env_def)

lemma example_readable: "parseFloat (toReadable 500 (decimals example_cfg)) = Fin 5"
  by code_simp

lemma example_amount: "compute_amount example_env example_cfg 0 (Fin 5) = Inr (Fin 2)"
  by code_simp

text \<open>
  The entry \<open>k:d\<close> of the concrete run, with balance 5 and amount 2.
\<close>

theorem validation_order_witness:
  "\<exists>st'. preview_step example_env example_cfg 0 ''k:d'' initial_preview = Inr st' \<and>
     (skipped_as zero_balance initial_preview st' \<longleftrightarrow> js_le (Fin 5) (Fin 0)) \<and>
     (skipped_as insufficient_balance initial_preview st' \<longleftrightarrow>
        js_gt (Fin 5) (Fin 0) \<and> (js_le (Fin 2) (Fin 0) \<or> js_gt (Fin 2) (Fin 5))) \<and>
     (accepted_as \<lparr>privateKey = ''k'', from_addr = ''0xfrom'', to_addr = trim ''d'', amount = Fin 2\<rparr>
        initial_preview st' \<longleftrightarrow>
        \<not> js_le (Fin 5) (Fin 0) \<and> \<not> (js_le (Fin 2) (Fin 0) \<or> js_gt (Fin 2) (Fin 5)))"
  by (rule validation_order[OF example_line example_wallet example_balance
        example_readable[symmetric] example_amount])


text \<open>
  Claim C2.  \<open>withRetry\<close> calls the operation at most \<open>maxRetries + 1\<close> times.  If the
  first two calls fail with errors that are retriable (code \<open>SERVER_ERROR\<close>, code
  \<open>-32603\<close>, or a message that includes \<open>no response\<close>) and the third succeeds, then,
  where at least two retries are allowed (every call in the script allows 3), exactly 3
  calls are made and the value of the third is returned.  If the first call fails with an
  error that is not retriable, exactly 1 call is made and that error is thrown.
\<close>

theorem retry_invocations:
  "invocations (withRetry fn maxRetries delay) \<le> maxRetries + 1 \<and>
   (2 \<le> maxRetries \<and> fn 0 = Inl e0 \<and> retriable e0 \<and> fn 1 = Inl e1 \<and> retriable e1 \<and>
    fn 2 = Inr v \<longrightarrow>
      invocations (withRetry fn maxRetries delay) = 3 \<and>
      outcome (withRetry fn maxRetries delay) = Inr (Some v)) \<and>
   (fn 0 = Inl e \<and> \<not> retriable e \<longrightarrow>
      invocations (withRetry fn maxRetries delay) = 1 \<and>
      outcome (withRetry fn maxRetries delay) = Inl e)"
proof (intro conjI impI)
  show "invocations (withRetry fn maxRetries delay) \<le> maxRetries + 1"
    using loop_invocations_le[of fn maxRetries delay 0 0 "[]"] by (simp add: withRetry_def)
next
  assume h: "2 \<le> maxRetries \<and> fn 0 = Inl e0 \<and> retriable e0 \<and> fn 1 = Inl e1 \<and> retriable e1 \<and>
    fn 2 = Inr v"
  have s0: "withRetry_loop fn maxRetries delay 0 0 [] =
      withRetry_loop fn maxRetries delay 1 1 [delay * 2 ^ 1]"
    using h loop_retry[of 0 maxRetries fn 0 e0 delay "[]"] by simp
  have s1: "withRetry_loop fn maxRetries delay 1 1 [delay * 2 ^ 1] =
      withRetry_loop fn maxRetries delay 2 2 [delay * 2 ^ 1, delay * 2 ^ 2]"
    using h loop_retry[of 1 maxRetries fn 1 e1 delay "[delay * 2 ^ 1]"]
    by (simp add: numeral_2_eq_2)
  have s2: "withRetry_loop fn maxRetries delay 2 2 [delay * 2 ^ 1, delay * 2 ^ 2] =
      \<lparr>outcome = Inr (Some v), invocations = 3, waits = [delay * 2 ^ 1, delay * 2 ^ 2]\<rparr>"
    using h loop_success[of 2 maxRetries fn 2 v delay "[delay * 2 ^ 1, delay * 2 ^ 2]"] by simp
  have run: "withRetry fn maxRetries delay =
      \<lparr>outcome = Inr (Some v), invocations = 3, waits = [delay * 2 ^ 1, delay * 2 ^ 2]\<rparr>"
    unfolding withRetry_def s0 s1 s2 ..
  show "invocations (withRetry fn maxRetries delay) = 3" by (simp add: run)
  show "outcome (withRetry fn maxRetries delay) = Inr (Some v)" by (simp add: run)
next
  assume h: "fn 0 = Inl e \<and> \<not> retriable e"
  then have run: "withRetry fn maxRetries delay = \<lparr>outcome = Inl e, invocations = 1, waits = []\<rparr>"
    by (simp add: withRetry_def loop_throw[of 0 maxRetries fn 0 e])
  show "invocations (withRetry fn maxRetries delay) = 1" by (simp add: run)
  show "outcome (withRetry fn maxRetries delay) = Inl e" by (simp add: run)
qed

lemma retriable_server_error: "retriable server_error"
  by (simp add: retriable_def server_error_def)

lemma retriable_no_response: "retriable no_response"
  by code_simp

lemma retriable_rpc_internal: "retriable (JsError (Some (CodeNum (- 32603))) None)"
  by (simp add: retriable_def)

lemma not_retriable_insufficient_funds: "\<not> retriable insufficient_funds"
  by code_simp

text \<open>
  The operations \<open>flaky\<close> and \<open>refused\<close> under the defaults.
\<close>

theorem retry_invocations_witness:
  "invocations (withRetry flaky 3 1000) \<le> 3 + 1 \<and>
   invocations (withRetry flaky 3 1000) = 3 \<and>
   outcome (withRetry flaky 3 1000) = Inr (Some ''0xhash'') \<and>
   invocations (withRetry refused 3 1000) = 1 \<and>
   outcome (withRetry refused 3 1000) = Inl insufficient_funds"
proof -
  have f: "(2::nat) \<le> 3 \<and> flaky 0 = Inl server_error \<and> retriable server_error \<and>
      flaky 1 = Inl no_response \<and> retriable no_response \<and> flaky 2 = Inr ''0xhash''"
    by (simp add: flaky_def retriable_server_error retriable_no_response)
  have r: "refused 0 = Inl insufficient_funds \<and> \<not> retriable insufficient_funds"
    by (simp add: refused_def not_retriable_insufficient_funds)
  note a = retry_invocations[of flaky 3 1000 server_error no_response "''0xhash''" insufficient_funds]
  note b = retry_invocations[of refused 3 1000 server_error no_response "''0xhash''" insufficient_funds]
  from a have a1: "invocations (withRetry flaky 3 1000) \<le> 3 + 1" by (rule conjunct1)
  from a f have a2: "invocations (withRetry flaky 3 1000) = 3 \<and>
      outcome (withRetry flaky 3 1000) = Inr (Some ''0xhash'')" by blast
  from b r have b2: "invocations (withRetry refused 3 1000) = 1 \<and>
      outcome (withRetry refused 3 1000) = Inl insufficient_funds" by blast
  from a1 a2 b2 show ?thesis by blast
qed

text \<open>
  Claim C8, amended.  The waits of \<open>withRetry\<close> are \<open>delay * 2^1\<close>,
  \<open>delay * 2^2\<close>, and so on, one before each call after the first: the wait before the
  \<open>k\<close>-th retry is \<open>delay * 2^k\<close>, since the attempt counter is incremented before the
  wait is computed.  The first retry is made after twice the base delay.
\<close>

theorem backoff_waits:
  "waits (withRetry fn maxRetries delay) =
     map (\<lambda>k. delay * 2 ^ k) [1 ..< invocations (withRetry fn maxRetries delay)]"
  using loop_waits[of 0 0 fn maxRetries delay "[]"] by (simp add: withRetry_def)

lemma flaky_run:
  "withRetry flaky 3 1000 =
     \<lparr>outcome = Inr (Some ''0xhash''), invocations = 3, waits = [2000, 4000]\<rparr>"
  by code_simp

text \<open>
  The operation \<open>flaky\<close> under the defaults waits 2000 and then 4000 milliseconds.
\<close>

theorem backoff_waits_witness:
  "waits (withRetry flaky 3 1000) = map (\<lambda>k. 1000 * 2 ^ k) [1 ..< 3] \<and>
   map (\<lambda>k. 1000 * 2 ^ k) [1 ..< 3] = [2000, 4000 :: nat]"
proof -
  have "invocations (withRetry flaky 3 1000) = 3" by (simp add: flaky_run)
  then have "waits (withRetry flaky 3 1000) = map (\<lambda>k. 1000 * 2 ^ k) [1 ..< 3]"
    using backoff_waits[of flaky 3 1000] by simp
  moreover have "map (\<lambda>k. 1000 * 2 ^ k) [1 ..< 3] = [2000, 4000 :: nat]"
    by (simp add: upt_conv_Cons)
  ultimately show ?thesis by simp
qed

text \<open>
  Claim C8 as stated puts the first wait at \<open>delay * 2^0\<close>.  An operation that fails once
  with a retriable error is retried, under the defaults, after 2000 milliseconds, not 1000.
\<close>

theorem backoff_first_wait_counterexample:
  "waits (withRetry_default failing_once) = [2000] \<and>
   hd (waits (withRetry_default failing_once)) \<noteq> 1000 * 2 ^ 0"
proof -
  have "waits (withRetry_default failing_once) = [2000]" by code_simp
  then show ?thesis by simp
qed


text \<open>
  Claim C3.  In mode \<open>remain\<close> with \<open>remainAmount = y >= 0\<close> and a balance
  \<open>x >= 0\<close> the computed amount is \<open>max(x - y, 0)\<close> as a number of the language (the
  difference is rounded once, by the subtraction).  With balance 5 and 5 to remain the
  amount is 0 and the entry is skipped with reason \<open>insufficient_balance\<close>; with balance
  5 and 3 to remain the amount is 2 and the entry is accepted into the plan.
\<close>

theorem remain_amount:
  "(transferMode cfg = ''remain'' \<and> remainAmount cfg = Fin y \<and> 0 \<le> y \<and> 0 \<le> x \<longrightarrow>
      compute_amount env cfg i (Fin x) = Inr (fl (max (x - y) 0))) \<and>
   (transferMode cfg = ''remain'' \<and> remainAmount cfg = Fin 5 \<and>
    destructure line = (pk, Some t) \<and> wallet_ctor env (trim pk) = Inr src \<and>
    query_balance env (tokenIsNative cfg) i src = Inr raw \<and>
    parseFloat (toReadable raw (decimals cfg)) = Fin 5 \<longrightarrow>
      compute_amount env cfg i (Fin 5) = Inr (Fin 0) \<and>
      (\<exists>st'. preview_step env cfg i line st = Inr st' \<and>
             skipped_as insufficient_balance st st' \<and>
             row_amount (fst (last (skipped st'))) = SFixed 0 6)) \<and>
   (transferMode cfg = ''remain'' \<and> remainAmount cfg = Fin 3 \<and>
    destructure line = (pk, Some t) \<and> wallet_ctor env (trim pk) = Inr src \<and>
    query_balance env (tokenIsNative cfg) i src = Inr raw \<and>
    parseFloat (toReadable raw (decimals cfg)) = Fin 5 \<longrightarrow>
      compute_amount env cfg i (Fin 5) = Inr (Fin 2) \<and>
      (\<exists>st'. preview_step env cfg i line st = Inr st' \<and>
             accepted_as \<lparr>privateKey = pk, from_addr = src, to_addr = trim t, amount = Fin 2\<rparr>
               st st'))"
proof (intro conjI impI)
  assume "transferMode cfg = ''remain'' \<and> remainAmount cfg = Fin y \<and> 0 \<le> y \<and> 0 \<le> x"
  then show "compute_amount env cfg i (Fin x) = Inr (fl (max (x - y) 0))"
    by (simp add: compute_amount_def js_max_sub)
next
  assume h: "transferMode cfg = ''remain'' \<and> remainAmount cfg = Fin 5 \<and>
    destructure line = (pk, Some t) \<and> wallet_ctor env (trim pk) = Inr src \<and>
    query_balance env (tokenIsNative cfg) i src = Inr raw \<and>
    parseFloat (toReadable raw (decimals cfg)) = Fin 5"
  then show a: "compute_amount env cfg i (Fin 5) = Inr (Fin 0)"
    by (simp add: compute_amount_def js_max_sub fl_0)
  have "compute_amount env cfg i (parseFloat (toReadable raw (decimals cfg))) = Inr (Fin 0)"
    using a h by simp
  from preview_step_unfold[OF _ _ _ this, of line pk t src st] h
  have "preview_step env cfg i line st =
      Inr (st\<lparr>skipped := skipped st @
        [(\<lparr>row_index = i + 1, row_from = src, row_balance = toReadable raw (decimals cfg),
           row_to = trim t, row_symbol = symbol cfg, row_amount = SFixed 0 6\<rparr>,
          insufficient_balance)]\<rparr>)"
    by (simp add: Let_def js_le_def js_gt_def toFixed6_0)
  then show "\<exists>st'. preview_step env cfg i line st = Inr st' \<and>
             skipped_as insufficient_balance st st' \<and>
             row_amount (fst (last (skipped st'))) = SFixed 0 6"
    by (simp add: skipped_as_def)
next
  assume h: "transferMode cfg = ''remain'' \<and> remainAmount cfg = Fin 3 \<and>
    destructure line = (pk, Some t) \<and> wallet_ctor env (trim pk) = Inr src \<and>
    query_balance env (tokenIsNative cfg) i src = Inr raw \<and>
    parseFloat (toReadable raw (decimals cfg)) = Fin 5"
  have "max (5 - 3) 0 = (2::rat)" by simp
  with h show a: "compute_amount env cfg i (Fin 5) = Inr (Fin 2)"
    by (simp add: compute_amount_def js_max_sub fl_2)
  have "compute_amount env cfg i (parseFloat (toReadable raw (decimals cfg))) = Inr (Fin 2)"
    using a h by simp
  from preview_step_unfold[OF _ _ _ this, of line pk t src st] h
  have "preview_step env cfg i line st =
      Inr (st\<lparr>previewLines := previewLines st @
             [Row \<lparr>row_index = i + 1, row_from = src, row_balance = toReadable raw (decimals cfg),
                    row_to = trim t, row_symbol = symbol cfg, row_amount = toFixed6 (Fin 2)\<rparr>],
           result := result st @
             [\<lparr>privateKey = pk, from_addr = src, to_addr = trim t, amount = Fin 2\<rparr>]\<rparr>)"
    by (simp add: Let_def js_le_def js_gt_def)
  then show "\<exists>st'. preview_step env cfg i line st = Inr st' \<and>
             accepted_as \<lparr>privateKey = pk, from_addr = src, to_addr = trim t, amount = Fin 2\<rparr>
               st st'"
    by (simp add: accepted_as_def)
qed

text \<open>
  The concrete run, with 3 and with 5 to remain.
\<close>

theorem remain_amount_witness:
  "compute_amount example_env example_cfg 0 (Fin 5) = Inr (fl (max (5 - 3) 0)) \<and>
   compute_amount example_env (example_cfg\<lparr>remainAmount := Fin 5\<rparr>) 0 (Fin 5) = Inr (Fin 0) \<and>
   (\<exists>st'. preview_step example_env (example_cfg\<lparr>remainAmount := Fin 5\<rparr>) 0 ''k:d''
            initial_preview = Inr st' \<and>
          skipped_as insufficient_balance initial_preview st' \<and>
          row_amount (fst (last (skipped st'))) = SFixed 0 6) \<and>
   compute_amount example_env example_cfg 0 (Fin 5) = Inr (Fin 2) \<and>
   (\<exists>st'. preview_step example_env example_cfg 0 ''k:d'' initial_preview = Inr st' \<and>
          accepted_as \<lparr>privateKey = ''k'', from_addr = ''0xfrom'', to_addr = trim ''d'',
                        amount = Fin 2\<rparr> initial_preview st')"
proof -
  have c3: "transferMode example_cfg = ''remain'' \<and> remainAmount example_cfg = Fin 3 \<and>
      (0::rat) \<le> 3 \<and> (0::rat) \<le> 5"
    by (simp add: example_cfg_def)
  have l5: "transferMode (example_cfg\<lparr>remainAmount := Fin 5\<rparr>) = ''remain'' \<and>
      remainAmount (example_cfg\<lparr>remainAmount := Fin 5\<rparr>) = Fin 5 \<and>
      destructure ''k:d'' = (''k'', Some ''d'') \<and>
      wallet_ctor example_env (trim ''k'') = Inr ''0xfrom'' \<and>
      query_balance example_env (tokenIsNative (example_cfg\<lparr>remainAmount := Fin 5\<rparr>)) 0 ''0xfrom''
        = Inr 500 \<and>
      parseFloat (toReadable 500 (decimals (example_cfg\<lparr>remainAmount := Fin 5\<rparr>))) = Fin 5"
    using example_line example_wallet example_balance example_readable
    by (simp add: example_cfg_def)
  have l3: "transferMode example_cfg = ''remain'' \<and> remainAmount example_cfg = Fin 3 \<and>
      destructure ''k:d'' = (''k'', Some ''d'') \<and>
      wallet_ctor example_env (trim ''k'') = Inr ''0xfrom'' \<and>
      query_balance example_env (tokenIsNative example_cfg) 0 ''0xfrom'' = Inr 500 \<and>
      parseFloat (toReadable 500 (decimals example_cfg)) = Fin 5"
    using example_line example_wallet example_balance example_readable
    by (simp add: example_cfg_def)
  note g = remain_amount[of example_cfg 3 5 example_env 0 "''k:d''" "''k''" "''d''" "''0xfrom''" 500
      initial_preview]
  note g5 = remain_amount[of "example_cfg\<lparr>remainAmount := Fin 5\<rparr>" 5 5 example_env 0 "''k:d''"
      "''k''" "''d''" "''0xfrom''" 500 initial_preview]
  from g c3 have w1: "compute_amount example_env example_cfg 0 (Fin 5) = Inr (fl (max (5 - 3) 0))"
    by blast
  from g5 l5 have w2: "compute_amount example_env (example_cfg\<lparr>remainAmount := Fin 5\<rparr>) 0 (Fin 5)
        = Inr (Fin 0) \<and>
      (\<exists>st'. preview_step example_env (example_cfg\<lparr>remainAmount := Fin 5\<rparr>) 0 ''k:d''
            initial_preview = Inr st' \<and>
          skipped_as insufficient_balance initial_preview st' \<and>
          row_amount (fst (last (skipped st'))) = SFixed 0 6)"
    by blast
  from g l3 have w3: "compute_amount example_env example_cfg 0 (Fin 5) = Inr (Fin 2) \<and>
      (\<exists>st'. preview_step example_env example_cfg 0 ''k:d'' initial_preview = Inr st' \<and>
          accepted_as \<lparr>privateKey = ''k'', from_addr = ''0xfrom'', to_addr = trim ''d'',
                        amount = Fin 2\<rparr> initial_preview st')"
    by blast
  from w1 w2 w3 show ?thesis by blast
qed


lemma range_lowest: "randomAmount 0 (Fin 1) (Fin 2) (Some 6) = Inr (SFixed 1 6)"
  by code_simp

lemma range_highest: "randomAmount (1 - 1 / 2 ^ 53) (Fin 1) (Fin 2) (Some 6) = Inr (SFixed 2 6)"
  by code_simp

lemma parse_one_two: "parseFloat (SFixed 1 6) = Fin 1 \<and> parseFloat (SFixed 2 6) = Fin 2"
  by code_simp

lemma largest_draw: "rnd64 (1 - 1 / 2 ^ 53) = 1 - 1 / 2 ^ 53"
  by code_simp

text \<open>
  Claim C4.  In mode \<open>range\<close> with \<open>min = 1\<close> and \<open>max = 2\<close> and a number of
  decimals \<open>d\<close> that \<open>toFixed\<close> accepts (0 to 100; the default is 6), for every draw
  \<open>r\<close> with \<open>0 <= r < 1\<close> the amount is a number from 1 to 2, both included, read from a
  decimal with \<open>d\<close> fraction digits.  With 6 decimals both ends are reached: 1 at the
  draw 0, and 2 at the draw \<open>1 - 2^-53\<close>, the largest binary64 value below 1.
\<close>

theorem range_amount_bounds:
  "(transferMode cfg = ''range'' \<and> minAmount cfg = Fin 1 \<and> maxAmount cfg = Fin 2 \<and>
    randomDecimals cfg = Some (int d) \<and> d \<le> 100 \<and> 0 \<le> random env i \<and> random env i < 1 \<longrightarrow>
      (\<exists>n a. randomAmount (random env i) (Fin 1) (Fin 2) (Some (int d)) =
               Inr (SFixed (of_int n / 10 ^ d) d) \<and>
             compute_amount env cfg i b = Inr (Fin a) \<and>
             Fin a = parseFloat (SFixed (of_int n / 10 ^ d) d) \<and> 1 \<le> a \<and> a \<le> 2)) \<and>
   randomAmount 0 (Fin 1) (Fin 2) (Some 6) = Inr (SFixed 1 6) \<and>
   parseFloat (SFixed 1 6) = Fin 1 \<and>
   rnd64 (1 - 1 / 2 ^ 53) = 1 - 1 / 2 ^ 53 \<and>
   randomAmount (1 - 1 / 2 ^ 53) (Fin 1) (Fin 2) (Some 6) = Inr (SFixed 2 6) \<and>
   parseFloat (SFixed 2 6) = Fin 2"
proof (intro conjI impI)
  assume h: "transferMode cfg = ''range'' \<and> minAmount cfg = Fin 1 \<and> maxAmount cfg = Fin 2 \<and>
    randomDecimals cfg = Some (int d) \<and> d \<le> 100 \<and> 0 \<le> random env i \<and> random env i < 1"
  then obtain n a where na:
      "randomAmount (random env i) (Fin 1) (Fin 2) (Some (int d)) = Inr (SFixed (of_int n / 10 ^ d) d)"
      "parseFloat (SFixed (of_int n / 10 ^ d) d) = Fin a" "1 \<le> a" "a \<le> 2"
    using range_amount_chain[of "random env i" d] by blast
  have "compute_amount env cfg i b = Inr (Fin a)"
    using h na(1,2) by (simp add: compute_amount_def)
  then show "\<exists>n a. randomAmount (random env i) (Fin 1) (Fin 2) (Some (int d)) =
               Inr (SFixed (of_int n / 10 ^ d) d) \<and>
             compute_amount env cfg i b = Inr (Fin a) \<and>
             Fin a = parseFloat (SFixed (of_int n / 10 ^ d) d) \<and> 1 \<le> a \<and> a \<le> 2"
    using na by auto
qed (simp_all only: range_lowest range_highest parse_one_two largest_draw)

text \<open>
  The concrete run in mode \<open>range\<close>, where the draw is one half.
\<close>

theorem range_amount_bounds_witness:
  "\<exists>n a. randomAmount (random example_env 0) (Fin 1) (Fin 2) (Some (int 6)) =
           Inr (SFixed (of_int n / 10 ^ 6) 6) \<and>
         compute_amount example_env (example_cfg\<lparr>transferMode := ''range''\<rparr>) 0 (Fin 5) = Inr (Fin a) \<and>
         Fin a = parseFloat (SFixed (of_int n / 10 ^ 6) 6) \<and> 1 \<le> a \<and> a \<le> 2"
proof -
  have h: "transferMode (example_cfg\<lparr>transferMode := ''range''\<rparr>) = ''range'' \<and>
      minAmount (example_cfg\<lparr>transferMode := ''range''\<rparr>) = Fin 1 \<and>
      maxAmount (example_cfg\<lparr>transferMode := ''range''\<rparr>) = Fin 2 \<and>
      randomDecimals (example_cfg\<lparr>transferMode := ''range''\<rparr>) = Some (int 6) \<and>
      (6::nat) \<le> 100 \<and> 0 \<le> random example_env 0 \<and> random example_env 0 < 1"
    by (simp add: example_cfg_def example_env_def)
  from range_amount_bounds[of "example_cfg\<lparr>transferMode := ''range''\<rparr>" 6 example_env 0 "Fin 5"] h
  show ?thesis by blast
qed


text \<open>
  Claim C5 says that \<open>executeTransfers\<close> records one outcome for every entry of the plan,
  goes on after a failure and awaits a delay after each entry.  On the two lines below it
  does not.  The first line has a blank before the key: the planner builds the wallet from
  the trimmed key and puts the key as it stands into the plan; the runner builds the wallet
  from the key in the plan, before its \<open>try\<close>; the constructor throws, and the run ends
  with no outcome recorded and no delay awaited, for the first entry and for the second.
\<close>

theorem runner_stops_before_try:
  "previewTransfers example_env example_cfg ['' k:d'', ''k:d''] =
     Inr \<lparr>result = [\<lparr>privateKey = '' k'', from_addr = ''0xfrom'', to_addr = ''d'', amount = Fin 2\<rparr>,
                    \<lparr>privateKey = ''k'', from_addr = ''0xfrom'', to_addr = ''d'', amount = Fin 2\<rparr>],
          skipped = [],
          previewLines =
            [Header,
             Row \<lparr>row_index = 1, row_from = ''0xfrom'', row_balance = SFixed 5 6, row_to = ''d'',
                  row_symbol = ''TKN'', row_amount = SFixed 2 6\<rparr>,
             Row \<lparr>row_index = 2, row_from = ''0xfrom'', row_balance = SFixed 5 6, row_to = ''d'',
                  row_symbol = ''TKN'', row_amount = SFixed 2 6\<rparr>]\<rparr> \<and>
   main_flow example_env example_cfg ['' k:d'', ''k:d''] ''yes'' = Executed ([], Some invalid_key)"
  by code_simp

text \<open>
  Claim C6, amended.  When the planner returns, no line of the address file made it
  throw, and its three lists are what the lines give, in the order of the file: the
  preview file holds the header and then the row of each accepted line, the plan holds
  the entry of each accepted line, and the skipped list holds the row of each skipped line,
  with the computed amount and the reason.  A line whose balance query failed is in
  neither list, so that the plan, the skipped list and the failed queries together account
  for every line.  A row of the preview file carries the addresses and the amount of its
  plan entry, and the skipped list is written to the skip report exactly when the plan is
  empty.
\<close>

theorem preview_report_is_plan:
  assumes "previewTransfers env cfg lines = Inr st"
  shows "aborted (fates env cfg 0 lines) = [] \<and>
         previewLines st = Header # map Row (planned_rows (fates env cfg 0 lines)) \<and>
         result st = planned_entries (fates env cfg 0 lines) \<and>
         skipped st = skip_records (fates env cfg 0 lines) \<and>
         length (result st) + length (skipped st) + count_list (fates env cfg 0 lines) Unrecorded =
           length lines \<and>
         previewLines st = Header # map Row (rows_of (previewLines st)) \<and>
         map row_key (rows_of (previewLines st)) = map plan_key (result st) \<and>
         length (result st) + length (skipped st) \<le> length lines \<and>
         (main_flow env cfg lines answer = EmptyPlan (skipped st)) = (result st = [])"
proof -
  note run = assms[unfolded previewTransfers_def]
  note f = preview_loop_fates[OF run]
  note old = preview_loop_inv[OF run initial_matches]
  have a: "aborted (fates env cfg 0 lines) = []" using f by simp
  have p: "previewLines st = Header # map Row (planned_rows (fates env cfg 0 lines))"
    using f by (simp add: initial_preview_def)
  have r: "result st = planned_entries (fates env cfg 0 lines)"
    using f by (simp add: initial_preview_def)
  have s: "skipped st = skip_records (fates env cfg 0 lines)"
    using f by (simp add: initial_preview_def)
  have n: "length (result st) + length (skipped st) + count_list (fates env cfg 0 lines) Unrecorded =
           length lines"
    using fates_partition[OF a] by (simp add: r s length_fates)
  have o: "previewLines st = Header # map Row (rows_of (previewLines st)) \<and>
         map row_key (rows_of (previewLines st)) = map plan_key (result st) \<and>
         length (result st) + length (skipped st) \<le> length lines"
    using old by (simp add: report_matches_plan_def initial_preview_def)
  have m: "(main_flow env cfg lines answer = EmptyPlan (skipped st)) = (result st = [])"
    using assms by (simp add: main_flow_def)
  from a p r s n o m show ?thesis by blast
qed

lemma example_skip:
  "previewTransfers example_env (example_cfg\<lparr>remainAmount := Fin 5\<rparr>) [''k:d''] =
     Inr example_skipped"
  by code_simp

lemma example_plan: "previewTransfers example_env example_cfg [''k:d''] = Inr example_planned"
  by code_simp

text \<open>
  Claim C6 as stated has a line in the preview file for a skipped entry too.  The single
  entry of this run is skipped, and the preview file holds the header only.
\<close>

theorem preview_report_counterexample:
  "previewTransfers example_env (example_cfg\<lparr>remainAmount := Fin 5\<rparr>) [''k:d''] =
     Inr example_skipped \<and>
   previewLines example_skipped = [Header] \<and>
   skipped example_skipped = [(example_row (SFixed 0 6), insufficient_balance)]"
  using example_skip by (simp add: example_skipped_def)

lemma mixed_run:
  "previewTransfers mixed_env example_cfg [''k:d'', ''k:d'', ''k:d''] = Inr mixed_state"
  by code_simp

lemma mixed_fates:
  "fates mixed_env example_cfg 0 [''k:d'', ''k:d'', ''k:d''] =
     [Planned_line (example_row (SFixed 2 6)) example_entry,
      Skipped_line mixed_skip zero_balance,
      Unrecorded]"
  by code_simp

text \<open>
  The concrete run on three lines: the first is accepted, the second is skipped for its
  zero balance, and the balance query of the third fails.
\<close>

theorem preview_report_is_plan_witness:
  "previewTransfers mixed_env example_cfg [''k:d'', ''k:d'', ''k:d''] = Inr mixed_state \<and>
   fates mixed_env example_cfg 0 [''k:d'', ''k:d'', ''k:d''] =
     [Planned_line (example_row (SFixed 2 6)) example_entry,
      Skipped_line mixed_skip zero_balance,
      Unrecorded] \<and>
   aborted (fates mixed_env example_cfg 0 [''k:d'', ''k:d'', ''k:d'']) = [] \<and>
   previewLines mixed_state =
     Header # map Row (planned_rows (fates mixed_env example_cfg 0 [''k:d'', ''k:d'', ''k:d''])) \<and>
   result mixed_state = planned_entries (fates mixed_env example_cfg 0 [''k:d'', ''k:d'', ''k:d'']) \<and>
   skipped mixed_state = skip_records (fates mixed_env example_cfg 0 [''k:d'', ''k:d'', ''k:d'']) \<and>
   length (result mixed_state) + length (skipped mixed_state) +
     count_list (fates mixed_env example_cfg 0 [''k:d'', ''k:d'', ''k:d'']) Unrecorded =
     length [''k:d'', ''k:d'', ''k:d''] \<and>
   previewLines mixed_state = Header # map Row (rows_of (previewLines mixed_state)) \<and>
   map row_key (rows_of (previewLines mixed_state)) = map plan_key (result mixed_state) \<and>
   length (result mixed_state) + length (skipped mixed_state) \<le> length [''k:d'', ''k:d'', ''k:d''] \<and>
   (main_flow mixed_env example_cfg [''k:d'', ''k:d'', ''k:d''] ''yes'' =
      EmptyPlan (skipped mixed_state)) = (result mixed_state = [])"
  by (rule conjI[OF mixed_run conjI[OF mixed_fates preview_report_is_plan[OF mixed_run]]])

text \<open>
  Claim C7, amended.  The planner does not check the two fields of a line.  A line whose
  destination field is empty or blank is treated like any other: when its balance and its
  amount pass the checks, it enters the plan with the empty string as destination, and the
  loop goes on with the remaining lines.
\<close>

theorem unvalidated_destination:
  assumes "destructure line = (pk, Some t)" and "trim t = []"
    and "wallet_ctor env (trim pk) = Inr src"
    and "query_balance env (tokenIsNative cfg) i src = Inr raw"
    and "b = parseFloat (toReadable raw (decimals cfg))"
    and "compute_amount env cfg i b = Inr a"
    and "\<not> js_le b (Fin 0)" and "\<not> js_le a (Fin 0)" and "\<not> js_gt a b"
  shows "preview_loop env cfg i (line # rest) st =
     preview_loop env cfg (i + 1) rest
       (st\<lparr>previewLines := previewLines st @
            [Row \<lparr>row_index = i + 1, row_from = src, row_balance = toReadable raw (decimals cfg),
                   row_to = [], row_symbol = symbol cfg, row_amount = toFixed6 a\<rparr>],
          result := result st @
            [\<lparr>privateKey = pk, from_addr = src, to_addr = [], amount = a\<rparr>]\<rparr>)"
proof -
  have "compute_amount env cfg i (parseFloat (toReadable raw (decimals cfg))) = Inr a"
    using assms(5,6) by simp
  from preview_step_unfold[OF assms(1,3,4) this, of st] assms(2,5,7,8,9)
  show ?thesis by (simp add: Let_def)
qed

lemma empty_destination_line: "destructure ''k:'' = (''k'', Some []) \<and> trim [] = []"
  by code_simp

lemma five_two: "\<not> js_le (Fin 5) (Fin 0) \<and> \<not> js_le (Fin 2) (Fin 0) \<and> \<not> js_gt (Fin 2) (Fin 5)"
  by (simp add: js_le_def js_gt_def)

text \<open>
  The line \<open>k:\<close> followed by the line \<open>k:d\<close>.
\<close>

theorem unvalidated_destination_witness:
  "preview_loop example_env example_cfg 0 (''k:'' # [''k:d'']) initial_preview =
     preview_loop example_env example_cfg (0 + 1) [''k:d'']
       (initial_preview\<lparr>previewLines := previewLines initial_preview @
            [Row \<lparr>row_index = 0 + 1, row_from = ''0xfrom'',
                   row_balance = toReadable 500 (decimals example_cfg),
                   row_to = [], row_symbol = symbol example_cfg, row_amount = toFixed6 (Fin 2)\<rparr>],
          result := result initial_preview @
            [\<lparr>privateKey = ''k'', from_addr = ''0xfrom'', to_addr = [], amount = Fin 2\<rparr>]\<rparr>)"
  by (rule unvalidated_destination[OF empty_destination_line[THEN conjunct1]
        empty_destination_line[THEN conjunct2] example_wallet example_balance
        example_readable[symmetric] example_amount five_two[THEN conjunct1]
        five_two[THEN conjunct2, THEN conjunct1] five_two[THEN conjunct2, THEN conjunct2]])

text \<open>
  Claim C7 as stated has a malformed line rejected as an error of its entry, and the rest
  processed.  The line \<open>k:\<close>, whose second field is empty, is accepted into the plan;
  the line \<open>k\<close>, which has no colon, ends \<open>previewTransfers\<close> with a \<open>TypeError\<close>,
  the line after it unread.
\<close>

theorem malformed_line_counterexample:
  "snd (destructure ''k:'') = Some [] \<and>
   previewTransfers example_env example_cfg [''k:''] =
     Inr \<lparr>result = [\<lparr>privateKey = ''k'', from_addr = ''0xfrom'', to_addr = [], amount = Fin 2\<rparr>],
          skipped = [],
          previewLines = [Header, Row \<lparr>row_index = 1, row_from = ''0xfrom'',
            row_balance = SFixed 5 6, row_to = [], row_symbol = ''TKN'',
            row_amount = SFixed 2 6\<rparr>]\<rparr> \<and>
   snd (destructure ''k'') = None \<and>
   previewTransfers example_env example_cfg [''k'', ''k:d''] =
     Inl (TypeError ''Cannot read properties of undefined (reading trim)'')"
  by code_simp

text \<open>
  Claim C9, amended.  After a plan that is not empty, the transfers are executed exactly
  when the answer, with the white space on both sides removed and in lower case, is
  \<open>yes\<close>; any other answer ends the run with nothing executed.
\<close>

theorem confirmation_gate:
  "previewTransfers env cfg lines = Inr st \<and> result st \<noteq> [] \<longrightarrow>
     main_flow env cfg lines answer =
       (if toLowerCase (trim answer) = ''yes''
        then Executed (executeTransfers env cfg 0 (result st)) else Cancelled)"
  by (simp add: main_flow_def confirmed_def)

lemma padded_yes: "toLowerCase (trim '' YES '') = ''yes'' \<and> toLowerCase (trim ''y'') \<noteq> ''yes''"
  by code_simp

text \<open>
  The answers \<open>YES\<close> between blanks, and \<open>y\<close>.
\<close>

theorem confirmation_gate_witness:
  "main_flow example_env example_cfg [''k:d''] '' YES '' =
     Executed (executeTransfers example_env example_cfg 0 (result example_planned)) \<and>
   main_flow example_env example_cfg [''k:d''] ''y'' = Cancelled"
proof -
  have ne: "result example_planned \<noteq> []" by (simp add: example_planned_def)
  from confirmation_gate[of example_env example_cfg "[''k:d'']" example_planned "'' YES ''"]
    confirmation_gate[of example_env example_cfg "[''k:d'']" example_planned "''y''"]
    example_plan ne padded_yes
  show ?thesis by simp
qed

text \<open>
  Claim C9 as stated lets only the string \<open>yes\<close>, in any case of its letters, through.
  The answer with a blank before \<open>yes\<close> is not that string in any case, and the
  transfer is executed.
\<close>

theorem confirmation_counterexample:
  "confirmed '' yes'' \<and> toLowerCase '' yes'' \<noteq> ''yes'' \<and>
   main_flow example_env example_cfg [''k:d''] '' yes'' =
     Executed ([Success \<lparr>log_from = ''0xfrom'', log_to = ''d'', log_amount = Fin 2,
                          log_text = ''0xhash''\<rparr>, Delay], None)"
  by code_simp

text \<open>
  Claim C10 says that every amount in the plan satisfies \<open>0 < amount <= b\<close>.  In mode
  \<open>fixed\<close> with a setting \<open>parseFloat\<close> could not read, the amount is \<open>NaN\<close>: both
  guards, \<open>amount <= 0\<close> and \<open>amount > b\<close>, are false, the entry is accepted, and
  neither \<open>0 < amount\<close> nor \<open>amount <= b\<close> holds.
\<close>

theorem nan_amount_is_planned:
  "previewTransfers example_env (example_cfg\<lparr>transferMode := ''fixed'', fixedAmount := NaN\<rparr>)
     [''k:d''] =
     Inr \<lparr>result = [\<lparr>privateKey = ''k'', from_addr = ''0xfrom'', to_addr = ''d'', amount = NaN\<rparr>],
          skipped = [],
          previewLines = [Header, Row (example_row SNaN)]\<rparr> \<and>
   \<not> js_lt (Fin 0) NaN \<and> \<not> js_le NaN (Fin 5)"
  by code_simp


text \<open>
  The part of claim C10 that holds.  An entry that one pass of the planner adds to the plan
  has an amount for which neither guard holds; when that amount is not \<open>NaN\<close>, it
  satisfies \<open>0 < amount <= b\<close> for the balance \<open>b\<close> read for the entry's sending
  address.
\<close>

theorem planned_amount_guarded:
  assumes "preview_step env cfg i line st = Inr st'" and "result st' \<noteq> result st"
  shows "\<exists>p raw b. result st' = result st @ [p] \<and>
           query_balance env (tokenIsNative cfg) i (from_addr p) = Inr raw \<and>
           b = parseFloat (toReadable raw (decimals cfg)) \<and>
           \<not> js_le (amount p) (Fin 0) \<and> \<not> js_gt (amount p) b \<and>
           (\<not> is_nan (amount p) \<longrightarrow> js_lt (Fin 0) (amount p) \<and> js_le (amount p) b)"
proof -
  obtain pk to where d: "destructure line = (pk, to)" by (cases "destructure line")
  show ?thesis
  proof (cases "wallet_ctor env (trim pk)")
    case (Inl e)
    then show ?thesis using assms d by (simp add: preview_step_def)
  next
    case w: (Inr src)
    show ?thesis
    proof (cases "query_balance env (tokenIsNative cfg) i src")
      case (Inl e)
      then show ?thesis using assms d w by (simp add: preview_step_def)
    next
      case q: (Inr raw)
      define b where "b = parseFloat (toReadable raw (decimals cfg))"
      have nn: "\<not> is_nan b" unfolding b_def by (rule toReadable_not_nan)
      show ?thesis
      proof (cases "compute_amount env cfg i b")
        case (Inl e)
        then show ?thesis using assms d w q by (simp add: preview_step_def Let_def b_def)
      next
        case a: (Inr amt)
        show ?thesis
        proof (cases "trim_to to")
          case (Inl e)
          then show ?thesis using assms d w q a by (simp add: preview_step_def Let_def b_def)
        next
          case t: (Inr dest)
          define p where "p = \<lparr>privateKey = pk, from_addr = src, to_addr = dest, amount = amt\<rparr>"
          have acc: "\<not> js_le b (Fin 0) \<and> \<not> js_le amt (Fin 0) \<and> \<not> js_gt amt b \<and>
              result st' = result st @ [p]"
            using assms d w q a t
            by (auto simp add: preview_step_def Let_def b_def p_def split: if_splits)
          have rng: "\<not> is_nan amt \<longrightarrow> js_lt (Fin 0) amt \<and> js_le amt b"
            using acc nn by (cases amt; cases b) (auto simp: js_le_def js_gt_def)
          have "result st' = result st @ [p] \<and>
              query_balance env (tokenIsNative cfg) i (from_addr p) = Inr raw \<and>
              b = parseFloat (toReadable raw (decimals cfg)) \<and>
              \<not> js_le (amount p) (Fin 0) \<and> \<not> js_gt (amount p) b \<and>
              (\<not> is_nan (amount p) \<longrightarrow> js_lt (Fin 0) (amount p) \<and> js_le (amount p) b)"
            using acc rng q by (simp add: p_def b_def)
          then show ?thesis by blast
        qed
      qed
    qed
  qed
qed

lemma example_step:
  "preview_step example_env example_cfg 0 ''k:d'' initial_preview = Inr example_planned"
  using example_plan by (simp add: previewTransfers_def split: sum.splits)

text \<open>
  The entry of the concrete run.
\<close>

theorem planned_amount_guarded_witness:
  "\<exists>p raw b. result example_planned = result initial_preview @ [p] \<and>
           query_balance example_env (tokenIsNative example_cfg) 0 (from_addr p) = Inr raw \<and>
           b = parseFloat (toReadable raw (decimals example_cfg)) \<and>
           \<not> js_le (amount p) (Fin 0) \<and> \<not> js_gt (amount p) b \<and>
           (\<not> is_nan (amount p) \<longrightarrow> js_lt (Fin 0) (amount p) \<and> js_le (amount p) b)"
proof -
  have "result example_planned \<noteq> result initial_preview"
    by (simp add: example_planned_def initial_preview_def)
  with example_step show ?thesis by (rule planned_amount_guarded)
qed

text \<open>
  The part of claim C5 that holds.  When nothing is thrown before the \<open>try\<close> for any
  entry of the plan (the wallet, the amount in base units, the gas overrides),
  \<open>executeTransfers\<close> ends without throwing and records exactly one outcome per entry, in
  the order of the plan, each followed by a delay, whether the submission succeeded or
  failed after its retries.
\<close>

theorem runner_attempts_every_entry:
  "(\<forall>p \<in> set plan. conversions_succeed env cfg p) \<longrightarrow>
   snd (executeTransfers env cfg j plan) = None \<and>
   map shape_of (fst (executeTransfers env cfg j plan)) =
     concat (map (\<lambda>p. [Outcome (from_addr p) (to_addr p) (amount p), Pause]) plan)"
  using executeTransfers_complete[of plan env cfg j] by blast

lemma example_conversions: "conversions_succeed example_env example_cfg example_entry"
  by code_simp

text \<open>
  A plan of two entries in the concrete run.
\<close>

theorem runner_attempts_every_entry_witness:
  "snd (executeTransfers example_env example_cfg 0 [example_entry, example_entry]) = None \<and>
   map shape_of (fst (executeTransfers example_env example_cfg 0 [example_entry, example_entry])) =
     concat (map (\<lambda>p. [Outcome (from_addr p) (to_addr p) (amount p), Pause])
       [example_entry, example_entry])"
proof -
  have "\<forall>p \<in> set [example_entry, example_entry]. conversions_succeed example_env example_cfg p"
    using example_conversions by simp
  with runner_attempts_every_entry[of "[example_entry, example_entry]" example_env example_cfg 0]
  show ?thesis by blast
qed

end
